theory Spec2Isabelle
  imports Main "HOL-Library.Char_ord" "HOL-Library.List_Lexorder" "HOL-Library.AList"
begin

section \<open>Strings and decimal numerals\<close>

text \<open>
  A Python \<open>str\<close> is modelled as a \<open>string\<close>: the list of its code points, each below
  256. In that range the only characters of Unicode category Nd (what \<open>\d\<close> matches and
  \<open>int()\<close> reads) are the ASCII digits, and \<open>str.lower()\<close> maps A-Z and the
  Latin-1 capitals (0xC0-0xDE except 0xD7) to the code point 32 above.
  Every Python integer of the program is a count, an index or the value of a digit
  string, hence never negative: it is a \<open>nat\<close>.
\<close>

definition isdigit :: "char \<Rightarrow> bool" where
  "isdigit c = (48 \<le> (of_char c :: nat) \<and> (of_char c :: nat) \<le> 57)"

definition digit_value :: "char \<Rightarrow> nat" where
  "digit_value c = of_char c - 48"

text \<open>\<open>int(s)\<close> on a string of digits.\<close>

definition py_int :: "string \<Rightarrow> nat" where
  "py_int s = foldl (\<lambda>acc c. 10 * acc + digit_value c) 0 s"

definition digit_char :: "nat \<Rightarrow> char" where
  "digit_char d = char_of (48 + d)"

text \<open>\<open>str(n)\<close> and the f-string rendering \<open>{n}\<close> of a non-negative integer.\<close>

fun py_str :: "nat \<Rightarrow> string" where
  "py_str n = (if n < 10 then [digit_char n] else py_str (n div 10) @ [digit_char (n mod 10)])"

declare py_str.simps [simp del]

definition lower_char :: "char \<Rightarrow> char" where
  "lower_char c =
     (let n = (of_char c :: nat)
      in if (65 \<le> n \<and> n \<le> 90) \<or> (192 \<le> n \<and> n \<le> 222 \<and> n \<noteq> 215)
         then char_of (n + 32) else c)"

definition lower :: "string \<Rightarrow> string" where
  "lower s = map lower_char s"

text \<open>\<open>s.rfind(c)\<close>: the index of the last occurrence, \<open>None\<close> for Python's -1.\<close>

definition rfind :: "char \<Rightarrow> string \<Rightarrow> nat option" where
  "rfind c s = (case filter (\<lambda>i. s ! i = c) (rev [0..<length s]) of [] \<Rightarrow> None | i # _ \<Rightarrow> Some i)"

section \<open>The folder-name pattern\<close>

text \<open>
  \<open>FOLDER_RE = ^(\d{4})-(\d{2})-(\d{2})-(\d{2})-(\d{2})-(\d{2})$\<close>, matched with
  \<open>re.match\<close>. Every piece has a fixed width, so the match is a left-to-right scan:
  \<open>digits n\<close> is \<open>(\d{n})\<close>, \<open>hyphen\<close> is the literal, and \<open>at_end\<close> is \<open>$\<close>, which
  (without the MULTILINE flag) holds at the end of the string and just before a newline
  that ends the string.
\<close>

definition digits :: "nat \<Rightarrow> string \<Rightarrow> (string \<times> string) option" where
  "digits n s =
     (if n \<le> length s \<and> list_all isdigit (take n s) then Some (take n s, drop n s) else None)"

fun hyphen :: "string \<Rightarrow> string option" where
  "hyphen [] = None"
| "hyphen (c # s) = (if c = CHR ''-'' then Some s else None)"

definition at_end :: "string \<Rightarrow> bool" where
  "at_end r = (r = [] \<or> r = [CHR 0x0A])"

type_synonym groups = "string \<times> string \<times> string \<times> string \<times> string \<times> string"

definition FOLDER_RE_match :: "string \<Rightarrow> groups option" where
  "FOLDER_RE_match s =
     Option.bind (digits 4 s) (\<lambda>(g1, r1).
     Option.bind (hyphen r1) (\<lambda>r1.
     Option.bind (digits 2 r1) (\<lambda>(g2, r2).
     Option.bind (hyphen r2) (\<lambda>r2.
     Option.bind (digits 2 r2) (\<lambda>(g3, r3).
     Option.bind (hyphen r3) (\<lambda>r3.
     Option.bind (digits 2 r3) (\<lambda>(g4, r4).
     Option.bind (hyphen r4) (\<lambda>r4.
     Option.bind (digits 2 r4) (\<lambda>(g5, r5).
     Option.bind (hyphen r5) (\<lambda>r5.
     Option.bind (digits 2 r5) (\<lambda>(g6, r6).
       if at_end r6 then Some (g1, g2, g3, g4, g5, g6) else None)))))))))))"

text \<open>\<open>TARGET_FILES\<close>, the four names that are copied.\<close>

definition TARGET_FILES :: "string set" where
  "TARGET_FILES = {''merged.jpg'', ''primary.jpg'', ''secondary.jpg'', ''video.mp4''}"

section \<open>Exceptions\<close>

text \<open>
  \<open>exception\<close> are the subclasses of Python's \<open>Exception\<close> that the program meets:
  \<open>ValueError\<close> (a failed parse or an impossible date), \<open>OSError\<close> (a failed file
  operation) and \<open>LibraryError\<close> (any other \<open>Exception\<close> raised inside piexif). What
  propagates is a \<open>raised\<close>: one of those, or \<open>SystemExit\<close> with its message, which is
  not an \<open>Exception\<close>.
\<close>

datatype exception = ValueError | OSError | LibraryError

datatype raised = Exc exception | SystemExit string

section \<open>Dates and times\<close>

text \<open>
  \<open>naive\<close> is the \<open>datetime\<close> of line 28, without a zone; \<open>datetime\<close> is the aware one
  that \<open>replace(tzinfo=...)\<close> returns. A \<open>tzinfo\<close> is a fixed offset from UTC in seconds,
  as \<open>timezone.utc\<close> and the \<open>tzinfo\<close> of \<open>datetime.now().astimezone()\<close> are.
\<close>

datatype tzinfo = Timezone int

definition timezone_utc :: tzinfo where
  "timezone_utc = Timezone 0"

record naive =
  year :: nat
  month :: nat
  day :: nat
  hour :: nat
  minute :: nat
  second :: nat

record datetime = naive +
  tzinfo :: tzinfo

definition is_leap :: "nat \<Rightarrow> bool" where
  "is_leap y = (y mod 4 = 0 \<and> (y mod 100 \<noteq> 0 \<or> y mod 400 = 0))"

definition days_in_month :: "nat \<Rightarrow> nat \<Rightarrow> nat" where
  "days_in_month y m =
     (if m = 2 \<and> is_leap y then 29
      else [0, 31, 28, 31, 30, 31, 30, 31, 31, 30, 31, 30, 31] ! m)"

text \<open>
  The constructor \<open>datetime(y, mo, d, h, mi, s)\<close>: \<open>ValueError\<close> unless the year is in
  MINYEAR..MAXYEAR (1..9999) and the other fields are a date and a time of day.
\<close>

definition datetime_new :: "nat \<Rightarrow> nat \<Rightarrow> nat \<Rightarrow> nat \<Rightarrow> nat \<Rightarrow> nat \<Rightarrow> exception + naive" where
  "datetime_new y mo d h mi s =
     (if \<not> (1 \<le> y \<and> y \<le> 9999) then Inl ValueError
      else if \<not> (1 \<le> mo \<and> mo \<le> 12) then Inl ValueError
      else if \<not> (1 \<le> d \<and> d \<le> days_in_month y mo) then Inl ValueError
      else if \<not> h \<le> 23 then Inl ValueError
      else if \<not> mi \<le> 59 then Inl ValueError
      else if \<not> s \<le> 59 then Inl ValueError
      else Inr \<lparr>year = y, month = mo, day = d, hour = h, minute = mi, second = s\<rparr>)"

definition replace_tzinfo :: "naive \<Rightarrow> tzinfo \<Rightarrow> datetime" where
  "replace_tzinfo dt tz =
     \<lparr>year = year dt, month = month dt, day = day dt, hour = hour dt, minute = minute dt,
      second = second dt, tzinfo = tz\<rparr>"

definition days_before_year :: "nat \<Rightarrow> int" where
  "days_before_year y = (let p = int y - 1 in p * 365 + p div 4 - p div 100 + p div 400)"

definition days_before_month :: "nat \<Rightarrow> nat \<Rightarrow> int" where
  "days_before_month y m =
     [0, 0, 31, 59, 90, 120, 151, 181, 212, 243, 273, 304, 334] ! m
       + (if m > 2 \<and> is_leap y then 1 else 0)"

definition ymd2ord :: "nat \<Rightarrow> nat \<Rightarrow> nat \<Rightarrow> int" where
  "ymd2ord y m d = days_before_year y + days_before_month y m + int d"

text \<open>
  \<open>dt.timestamp()\<close> of an aware datetime: the seconds from 1970-01-01T00:00:00 UTC
  (whose ordinal is 719163). The seconds are whole, so the float is an integer.
\<close>

definition timestamp :: "datetime \<Rightarrow> int" where
  "timestamp dt =
     (case tzinfo dt of Timezone off \<Rightarrow>
        (ymd2ord (year dt) (month dt) (day dt) - 719163) * 86400
          + int (hour dt) * 3600 + int (minute dt) * 60 + int (second dt) - off)"


text \<open>\<open>s.zfill(w)\<close>, and \<open>dt.strftime("%Y:%m:%d %H:%M:%S")\<close> with every field zero-padded.\<close>

definition zfill :: "nat \<Rightarrow> string \<Rightarrow> string" where
  "zfill w s = replicate (w - length s) (CHR ''0'') @ s"

definition strftime :: "datetime \<Rightarrow> string" where
  "strftime dt =
     zfill 4 (py_str (year dt)) @ '':'' @ zfill 2 (py_str (month dt)) @ '':''
       @ zfill 2 (py_str (day dt)) @ '' '' @ zfill 2 (py_str (hour dt)) @ '':''
       @ zfill 2 (py_str (minute dt)) @ '':'' @ zfill 2 (py_str (second dt))"

section \<open>The host: file system, clock and the optional library\<close>

text \<open>
  A \<open>path\<close> is a resolved absolute \<open>Path\<close>: the list of its components below the root
  (\<open>resolve()\<close> is the identity on such paths). A component holds no slash.
  The file system maps paths to nodes; a regular file carries whether it can be read,
  its bytes and its access and modification times in epoch seconds; \<open>Other\<close> is an
  entry that is neither a directory nor a regular file. The root always is a directory.

  The \<open>world\<close> is what the run changes: the file system, the two output streams, and
  how many times the host's zone offset has been read. The \<open>host\<close> is what the run only
  reads: \<open>local_offset k\<close> is the offset (seconds east of UTC) that the host reports at
  the k-th evaluation of \<open>datetime.now().astimezone()\<close>, \<open>wall_clock\<close> is the time with
  which a rewritten file is stamped, and the piexif fields say whether
  \<open>import piexif\<close> succeeds and what \<open>piexif.load\<close>, \<open>piexif.dump\<close> and
  \<open>piexif.insert\<close> do to the bytes of a file.
\<close>

type_synonym path = "string list"

datatype node = File (readable: bool) (content: string) (atime: int) (mtime: int) | Dir | Other

record world =
  fs :: "(path \<times> node) list"
  stdout :: "string list"
  stderr :: "string list"
  tz_reads :: nat

type_synonym exif_dict = "string \<rightharpoonup> (nat \<rightharpoonup> string)"

record host =
  local_offset :: "nat \<Rightarrow> int"
  wall_clock :: int
  piexif_installed :: bool
  piexif_load :: "string \<Rightarrow> exception + exif_dict"
  piexif_dump :: "exif_dict \<Rightarrow> exception + string"
  piexif_insert :: "string \<Rightarrow> string \<Rightarrow> exception + string"

type_synonym 'a result = "(raised \<times> world) + 'a"

definition lookup :: "world \<Rightarrow> path \<Rightarrow> node option" where
  "lookup w p = (if p = [] then Some Dir else map_of (fs w) p)"

definition path_exists :: "world \<Rightarrow> path \<Rightarrow> bool" where
  "path_exists w p = (lookup w p \<noteq> None)"

definition is_dir :: "world \<Rightarrow> path \<Rightarrow> bool" where
  "is_dir w p = (lookup w p = Some Dir)"

definition is_file :: "world \<Rightarrow> path \<Rightarrow> bool" where
  "is_file w p = (case lookup w p of Some (File r c a m) \<Rightarrow> True | _ \<Rightarrow> False)"

definition put :: "world \<Rightarrow> path \<Rightarrow> node \<Rightarrow> world" where
  "put w p n = w\<lparr>fs := AList.update p n (fs w)\<rparr>"

definition print_line :: "world \<Rightarrow> string \<Rightarrow> world" where
  "print_line w line = w\<lparr>stdout := stdout w @ [line]\<rparr>"

text \<open>
  \<open>p.name\<close>, \<open>p.parent\<close>, \<open>p.suffix\<close>, \<open>p.stem\<close>, \<open>p / name\<close> and \<open>str(p)\<close> of pathlib.
  The suffix of a name starts at its last dot, unless that dot is the first or the last
  character of the name (pathlib up to Python 3.13); stem and suffix together are the
  name.
\<close>

definition path_name :: "path \<Rightarrow> string" where
  "path_name p = (if p = [] then [] else last p)"

definition path_parent :: "path \<Rightarrow> path" where
  "path_parent p = butlast p"

definition path_suffix :: "path \<Rightarrow> string" where
  "path_suffix p =
     (let name = path_name p
      in case rfind (CHR ''.'') name of
           None \<Rightarrow> []
         | Some i \<Rightarrow> if 0 < i \<and> i < length name - 1 then drop i name else [])"

definition path_stem :: "path \<Rightarrow> string" where
  "path_stem p =
     (let name = path_name p
      in case rfind (CHR ''.'') name of
           None \<Rightarrow> name
         | Some i \<Rightarrow> if 0 < i \<and> i < length name - 1 then take i name else name)"

definition joinpath :: "path \<Rightarrow> string \<Rightarrow> path" where
  "joinpath p name = p @ [name]"

definition path_str :: "path \<Rightarrow> string" where
  "path_str p = (if p = [] then ''/'' else concat (map (\<lambda>c. ''/'' @ c) p))"

text \<open>
  \<open>p.iterdir()\<close>: the entries of a directory, in the order the file system lists them;
  \<open>OSError\<close> when \<open>p\<close> is not a directory.
\<close>

definition iterdir :: "world \<Rightarrow> path \<Rightarrow> exception + path list" where
  "iterdir w p =
     (if is_dir w p
      then Inr (filter (\<lambda>q. q \<noteq> [] \<and> butlast q = p) (map fst (fs w)))
      else Inl OSError)"

text \<open>
  \<open>p.mkdir(parents=True, exist_ok=True)\<close>: \<open>OSError\<close> (FileExistsError or
  NotADirectoryError) when \<open>p\<close> or one of its ancestors exists and is not a directory;
  otherwise every one of them that is missing becomes a directory.
\<close>

definition ancestors_and_self :: "path \<Rightarrow> path list" where
  "ancestors_and_self p = map (\<lambda>k. take k p) [1..<Suc (length p)]"

definition mkdir_parents :: "world \<Rightarrow> path \<Rightarrow> exception + world" where
  "mkdir_parents w p =
     (if list_ex (\<lambda>q. path_exists w q \<and> \<not> is_dir w q) (ancestors_and_self p) then Inl OSError
      else Inr (foldl (\<lambda>w q. if path_exists w q then w else put w q Dir) w (ancestors_and_self p)))"

text \<open>
  \<open>shutil.copy2(src, dst)\<close>: the bytes, the mode and the times of \<open>src\<close> at \<open>dst\<close> (inside
  \<open>dst\<close> when that is a directory). \<open>OSError\<close> when \<open>src\<close> is not a readable regular file,
  when source and target are the same file, when the target is a directory or a special
  file, or when the target's directory is missing.
\<close>

definition copy2 :: "world \<Rightarrow> path \<Rightarrow> path \<Rightarrow> exception + world" where
  "copy2 w src dst =
     (let target = (if is_dir w dst then joinpath dst (path_name src) else dst)
      in case lookup w src of
           Some (File r c a m) \<Rightarrow>
             if \<not> r \<or> target = src \<or> is_dir w target \<or> lookup w target = Some Other
                \<or> \<not> is_dir w (path_parent target)
             then Inl OSError
             else Inr (put w target (File r c a m))
         | _ \<Rightarrow> Inl OSError)"

section \<open>The functions of the program\<close>

text \<open>\<open>datetime.now().astimezone().tzinfo\<close>: one more reading of the host's offset.\<close>

definition local_tz_now :: "host \<Rightarrow> world \<Rightarrow> tzinfo \<times> world" where
  "local_tz_now host w = (Timezone (local_offset host (tz_reads w)), w\<lparr>tz_reads := Suc (tz_reads w)\<rparr>)"

definition parse_folder_datetime :: "host \<Rightarrow> world \<Rightarrow> string \<Rightarrow> bool \<Rightarrow> (datetime \<times> world) result" where
  "parse_folder_datetime host w folder_name use_utc =
     (case FOLDER_RE_match folder_name of
        None \<Rightarrow> Inl (Exc ValueError, w)
      | Some (gy, gmo, gd, gh, gmi, gs) \<Rightarrow>
          (case datetime_new (py_int gy) (py_int gmo) (py_int gd) (py_int gh) (py_int gmi) (py_int gs) of
             Inl e \<Rightarrow> Inl (Exc e, w)
           | Inr dt \<Rightarrow>
               if use_utc then Inr (replace_tzinfo dt timezone_utc, w)
               else (let (local_tz, w') = local_tz_now host w
                     in Inr (replace_tzinfo dt local_tz, w'))))"

text \<open>
  \<open>ensure_unique_path\<close>. \<open>candidate\<close> is line 53, \<open>parent / f"{stem}-{i}{suffix}"\<close>;
  \<open>probe\<close> is the \<open>while True\<close> loop from the value \<open>i\<close> on. The loop ends because a file
  system holds finitely many entries (the termination proof follows the definitions).
\<close>

definition candidate :: "path \<Rightarrow> string \<Rightarrow> string \<Rightarrow> nat \<Rightarrow> path" where
  "candidate parent stem suffix i = joinpath parent (stem @ ''-'' @ py_str i @ suffix)"

function probe :: "world \<Rightarrow> path \<Rightarrow> string \<Rightarrow> string \<Rightarrow> nat \<Rightarrow> path" where
  "probe w parent stem suffix i =
     (if \<not> path_exists w (candidate parent stem suffix i) then candidate parent stem suffix i
      else probe w parent stem suffix (i + 1))"
  by pat_completeness auto

definition ensure_unique_path :: "world \<Rightarrow> path \<Rightarrow> path" where
  "ensure_unique_path w dest_path =
     (if \<not> path_exists w dest_path then dest_path
      else probe w (path_parent dest_path) (path_stem dest_path) (path_suffix dest_path) 1)"

text \<open>
  \<open>os.utime(path, (ts, ts))\<close> with \<open>ts = dt.timestamp()\<close>. The times of a directory or a
  special file are not part of the model.
\<close>

definition set_fs_times :: "world \<Rightarrow> path \<Rightarrow> datetime \<Rightarrow> exception + world" where
  "set_fs_times w p dt =
     (let ts = timestamp dt
      in case lookup w p of
           None \<Rightarrow> Inl OSError
         | Some (File r c a m) \<Rightarrow> Inr (put w p (File r c ts ts))
         | Some _ \<Rightarrow> Inr w)"

definition read_file :: "world \<Rightarrow> path \<Rightarrow> exception + string" where
  "read_file w p = (case lookup w p of Some (File r c a m) \<Rightarrow> if r then Inr c else Inl OSError | _ \<Rightarrow> Inl OSError)"

definition write_file :: "host \<Rightarrow> world \<Rightarrow> path \<Rightarrow> string \<Rightarrow> exception + world" where
  "write_file host w p c' =
     (case lookup w p of
        Some (File r c a m) \<Rightarrow> Inr (put w p (File r c' a (wall_clock host)))
      | _ \<Rightarrow> Inl OSError)"

text \<open>
  The \<open>try\<close> block of \<open>update_exif_datetime\<close> (lines 78 to 92). The tags are
  \<open>piexif.ImageIFD.DateTime = 306\<close>, \<open>piexif.ExifIFD.DateTimeOriginal = 36867\<close> and
  \<open>piexif.ExifIFD.DateTimeDigitized = 36868\<close>.
\<close>

definition setdefault :: "exif_dict \<Rightarrow> string \<Rightarrow> exif_dict" where
  "setdefault d k = (case d k of None \<Rightarrow> d(k \<mapsto> Map.empty) | Some v \<Rightarrow> d)"

definition set_tag :: "exif_dict \<Rightarrow> string \<Rightarrow> nat \<Rightarrow> string \<Rightarrow> exif_dict" where
  "set_tag d k tag v = d(k \<mapsto> (case d k of None \<Rightarrow> Map.empty | Some ifd \<Rightarrow> ifd)(tag \<mapsto> v))"

definition exif_try :: "host \<Rightarrow> world \<Rightarrow> path \<Rightarrow> datetime \<Rightarrow> exception + world" where
  "exif_try host w p dt =
     (case read_file w p of
        Inl e \<Rightarrow> Inl e
      | Inr bytes \<Rightarrow>
          (case piexif_load host bytes of
             Inl e \<Rightarrow> Inl e
           | Inr loaded \<Rightarrow>
               (let exif_str = strftime dt;
                    d1 = set_tag (setdefault loaded ''0th'') ''0th'' 306 exif_str;
                    d2 = set_tag (setdefault d1 ''Exif'') ''Exif'' 36867 exif_str;
                    d3 = set_tag d2 ''Exif'' 36868 exif_str
                in case piexif_dump host d3 of
                     Inl e \<Rightarrow> Inl e
                   | Inr exif_bytes \<Rightarrow>
                       (case piexif_insert host exif_bytes bytes of
                          Inl e \<Rightarrow> Inl e
                        | Inr bytes' \<Rightarrow> write_file host w p bytes'))))"

text \<open>
  \<open>update_exif_datetime\<close>: \<open>False\<close> when the import fails, \<open>False\<close> when the \<open>try\<close> block
  raises an \<open>Exception\<close> (the file is then as it was), \<open>True\<close> otherwise.
\<close>

definition update_exif_datetime :: "host \<Rightarrow> world \<Rightarrow> path \<Rightarrow> datetime \<Rightarrow> (bool \<times> world) result" where
  "update_exif_datetime host w p dt =
     (if \<not> piexif_installed host then Inr (False, w)
      else case exif_try host w p dt of
             Inl e \<Rightarrow> Inr (False, w)
           | Inr w' \<Rightarrow> Inr (True, w'))"

text \<open>A \<open>for\<close> loop whose body may raise: the first exception ends the loop.\<close>

fun for_each :: "('a \<Rightarrow> 's \<Rightarrow> 's result) \<Rightarrow> 'a list \<Rightarrow> 's \<Rightarrow> 's result" where
  "for_each body [] st = Inr st"
| "for_each body (x # xs) st =
     (case body x st of Inl ew \<Rightarrow> Inl ew | Inr st' \<Rightarrow> for_each body xs st')"

text \<open>
  The body of the inner loop (lines 130 to 152) for one \<open>child\<close>; the state is the world
  and \<open>copied\<close>.
\<close>

definition child_body ::
  "host \<Rightarrow> path \<Rightarrow> bool \<Rightarrow> string \<Rightarrow> datetime \<Rightarrow> path \<Rightarrow> world \<times> nat \<Rightarrow> (world \<times> nat) result" where
  "child_body host dest_dir write_exif folder_name dt child st =
     (case st of (w, copied) \<Rightarrow>
        if \<not> is_file w child then Inr (w, copied)
        else if lower (path_name child) \<notin> TARGET_FILES then Inr (w, copied)
        else
          (let new_name = folder_name @ ''-'' @ path_name child;
               out_path = ensure_unique_path w (joinpath dest_dir new_name)
           in case copy2 w child out_path of
                Inl e \<Rightarrow> Inl (Exc e, w)
              | Inr w1 \<Rightarrow>
                  (case set_fs_times w1 out_path dt of
                     Inl e \<Rightarrow> Inl (Exc e, w1)
                   | Inr w2 \<Rightarrow>
                       if write_exif
                       then (case update_exif_datetime host w2 out_path dt of
                               Inl ew \<Rightarrow> Inl ew
                             | Inr (updated, w3) \<Rightarrow> Inr (w3, copied + 1))
                       else Inr (w2, copied + 1))))"

text \<open>
  The body of the outer loop (lines 115 to 152) for one \<open>entry\<close>; the state is the world,
  \<open>copied\<close> and \<open>skipped\<close>. Only \<open>ValueError\<close> is caught at line 125.
\<close>

definition entry_body ::
  "host \<Rightarrow> path \<Rightarrow> bool \<Rightarrow> bool \<Rightarrow> path \<Rightarrow> world \<times> nat \<times> nat \<Rightarrow> (world \<times> nat \<times> nat) result" where
  "entry_body host dest_dir use_utc write_exif entry st =
     (case st of (w, copied, skipped) \<Rightarrow>
        if \<not> is_dir w entry then Inr (w, copied, skipped)
        else
          (let folder_name = path_name entry
           in if FOLDER_RE_match folder_name = None then Inr (w, copied, skipped + 1)
              else
                (case parse_folder_datetime host w folder_name use_utc of
                   Inl (Exc ValueError, w') \<Rightarrow> Inr (w', copied, skipped + 1)
                 | Inl (e, w') \<Rightarrow> Inl (e, w')
                 | Inr (dt, w') \<Rightarrow>
                     (case iterdir w' entry of
                        Inl e \<Rightarrow> Inl (Exc e, w')
                      | Inr children \<Rightarrow>
                          (case for_each (child_body host dest_dir write_exif folder_name dt)
                                  children (w', copied) of
                             Inl ew \<Rightarrow> Inl ew
                           | Inr (w'', copied') \<Rightarrow> Inr (w'', copied', skipped))))))"

text \<open>
  \<open>main\<close> (lines 97 to 155). \<open>source_dir\<close> and \<open>dest_dir\<close> are the resolved paths of lines
  104 and 105; the result is the world after the two \<open>print\<close> calls, or what was raised
  and the world at that moment.
\<close>

definition main :: "host \<Rightarrow> world \<Rightarrow> path \<Rightarrow> path \<Rightarrow> bool \<Rightarrow> bool \<Rightarrow> world result" where
  "main host w source_dir dest_dir use_utc write_exif =
     (case mkdir_parents w dest_dir of
        Inl e \<Rightarrow> Inl (Exc e, w)
      | Inr w1 \<Rightarrow>
          if \<not> is_dir w1 source_dir
          then Inl (SystemExit (''Source directory does not exist or is not a directory: ''
                                 @ path_str source_dir), w1)
          else
            (case iterdir w1 source_dir of
               Inl e \<Rightarrow> Inl (Exc e, w1)
             | Inr entries \<Rightarrow>
                 (case for_each (entry_body host dest_dir use_utc write_exif) (sort entries)
                         (w1, 0, 0) of
                    Inl ew \<Rightarrow> Inl ew
                  | Inr (w2, copied, skipped) \<Rightarrow>
                      Inr (print_line
                             (print_line w2
                                (''Done. Copied: '' @ py_str copied
                                   @ '', Skipped folders (non-matching pattern): '' @ py_str skipped))
                             (''Output folder: '' @ path_str dest_dir)))))"

text \<open>
  The script (lines 158 to 178): the exit status and the final world. \<open>SystemExit\<close> with
  a message prints the message on the error stream and exits with status 1; any other
  uncaught exception prints a traceback and exits with status 1.
\<close>

definition script :: "host \<Rightarrow> world \<Rightarrow> path \<Rightarrow> path \<Rightarrow> bool \<Rightarrow> bool \<Rightarrow> nat \<times> world" where
  "script host w source dest utc exif =
     (case main host w source dest utc exif of
        Inr w' \<Rightarrow> (0, w')
      | Inl (SystemExit msg, w') \<Rightarrow> (1, w'\<lparr>stderr := stderr w' @ [msg]\<rparr>)
      | Inl (Exc e, w') \<Rightarrow> (1, w'\<lparr>stderr := stderr w' @ [''Traceback (most recent call last):'']\<rparr>))"

section \<open>Scenarios and example hosts\<close>

text \<open>
  The scenario of repeated allocation: the same desired path is requested \<open>n\<close> times,
  and after each request a node \<open>f\<close> is created at the path that was returned. The
  result is the list of the returned paths, in the order of the requests.
\<close>

fun requests :: "world \<Rightarrow> path \<Rightarrow> node \<Rightarrow> nat \<Rightarrow> path list" where
  "requests w p f 0 = []"
| "requests w p f (Suc n) =
     (let q = ensure_unique_path w p in q # requests (put w q f) p f n)"

text \<open>A destination directory in which \<open>a.jpg\<close> and \<open>a-1.jpg\<close> are taken.\<close>

definition w_taken :: world where
  "w_taken = \<lparr>fs = [([''out''], Dir), ([''out'', ''a.jpg''], File True ''x'' 0 0),
                    ([''out'', ''a-1.jpg''], File True ''y'' 0 0)],
              stdout = [], stderr = [], tz_reads = 0\<rparr>"

text \<open>
  The folder name \<open>YYYY-MM-DD-HH-MM-SS\<close> that encodes six given fields, each zero-padded
  to its fixed width (the format named in the comment of line 11).
\<close>

definition folder_name_of :: "nat \<Rightarrow> nat \<Rightarrow> nat \<Rightarrow> nat \<Rightarrow> nat \<Rightarrow> nat \<Rightarrow> string" where
  "folder_name_of y mo d h mi s =
     zfill 4 (py_str y) @ ''-'' @ zfill 2 (py_str mo) @ ''-'' @ zfill 2 (py_str d) @ ''-''
       @ zfill 2 (py_str h) @ ''-'' @ zfill 2 (py_str mi) @ ''-'' @ zfill 2 (py_str s)"

text \<open>
  Example hosts: \<open>h_plain\<close> is one hour east of UTC and has no piexif; \<open>h_broken\<close> has a
  piexif whose \<open>load\<close> always raises; \<open>h_shift\<close> is a host whose offset changes from one
  hour to two hours after its first reading (a daylight-saving change during the run).
\<close>

definition h_plain :: host where
  "h_plain = \<lparr>local_offset = (\<lambda>k. 3600), wall_clock = 1700000000, piexif_installed = False,
              piexif_load = (\<lambda>b. Inl LibraryError), piexif_dump = (\<lambda>d. Inl LibraryError),
              piexif_insert = (\<lambda>e b. Inl LibraryError)\<rparr>"

definition h_broken :: host where
  "h_broken = h_plain\<lparr>piexif_installed := True\<rparr>"

definition h_shift :: host where
  "h_shift = h_plain\<lparr>local_offset := (\<lambda>k. if k = 0 then 3600 else 7200)\<rparr>"

text \<open>
  An example export: two folders with well-formed names, one whose name has month 13,
  one whose name does not match the pattern, an empty destination directory, and
  elsewhere a file that cannot be read.
\<close>

definition w_export :: world where
  "w_export =
     \<lparr>fs = [([''out''], Dir),
            ([''src''], Dir),
            ([''src'', ''2022-11-07-15-09-47''], Dir),
            ([''src'', ''2022-11-07-15-09-47'', ''primary.jpg''], File True ''abc'' 5 6),
            ([''src'', ''2022-11-07-15-09-47'', ''MERGED.JPG''], File True ''mm'' 5 6),
            ([''src'', ''2022-11-07-15-09-47'', ''thumbnail.png''], File True ''t'' 5 6),
            ([''src'', ''2022-11-07-15-09-48''], Dir),
            ([''src'', ''2022-11-07-15-09-48'', ''primary.jpg''], File True ''def'' 7 8),
            ([''src'', ''2022-13-07-15-09-47''], Dir),
            ([''src'', ''2022-13-07-15-09-47'', ''primary.jpg''], File True ''x'' 1 2),
            ([''src'', ''badname''], Dir),
            ([''src'', ''badname'', ''primary.jpg''], File True ''y'' 1 2),
            ([''locked''], Dir),
            ([''locked'', ''video.mp4''], File False ''v'' 3 4)],
      stdout = [], stderr = [], tz_reads = 0\<rparr>"

definition dt_example :: datetime where
  "dt_example = \<lparr>year = 2022, month = 11, day = 7, hour = 15, minute = 9, second = 47,
                 tzinfo = timezone_utc\<rparr>"

section \<open>Decimal numerals are injective; the probing loop terminates\<close>

lemma digit_char_inj: "a < 10 \<Longrightarrow> b < 10 \<Longrightarrow> digit_char a = digit_char b \<Longrightarrow> a = b"
proof -
  assume a: "a < 10" and b: "b < 10" and e: "digit_char a = digit_char b"
  from e have "(of_char (digit_char a) :: nat) = of_char (digit_char b)" by simp
  with a b show ?thesis by (simp add: digit_char_def)
qed

lemma py_str_not_Nil: "py_str n \<noteq> []"
  by (subst py_str.simps) simp

lemma py_str_length_small: "n < 10 \<Longrightarrow> length (py_str n) = 1"
  by (subst py_str.simps) simp

lemma py_str_length_big: "\<not> n < 10 \<Longrightarrow> length (py_str n) \<ge> 2"
proof -
  assume n: "\<not> n < 10"
  have "py_str n = py_str (n div 10) @ [digit_char (n mod 10)]"
    using n by (subst py_str.simps) simp
  moreover have "length (py_str (n div 10)) \<ge> 1"
    using py_str_not_Nil [of "n div 10"] by (cases "py_str (n div 10)") auto
  ultimately show ?thesis by simp
qed

lemma py_str_inj: "py_str a = py_str b \<Longrightarrow> a = b"
proof (induction a arbitrary: b rule: py_str.induct)
  case (1 n)
  show ?case
  proof (cases "n < 10")
    case True
    then have la: "length (py_str n) = 1" by (rule py_str_length_small)
    have bs: "b < 10"
    proof (rule ccontr)
      assume "\<not> b < 10"
      then have "length (py_str b) \<ge> 2" by (rule py_str_length_big)
      with la "1.prems" show False by simp
    qed
    have "py_str n = [digit_char n]" using True by (subst py_str.simps) simp
    moreover have "py_str b = [digit_char b]" using bs by (subst py_str.simps) simp
    ultimately have "digit_char n = digit_char b" using "1.prems" by simp
    then show ?thesis using True bs by (rule digit_char_inj [rotated 2])
  next
    case False
    then have la: "length (py_str n) \<ge> 2" by (rule py_str_length_big)
    have bs: "\<not> b < 10"
    proof
      assume "b < 10"
      then have "length (py_str b) = 1" by (rule py_str_length_small)
      with la "1.prems" show False by simp
    qed
    have ea: "py_str n = py_str (n div 10) @ [digit_char (n mod 10)]"
      using False by (subst py_str.simps) simp
    have eb: "py_str b = py_str (b div 10) @ [digit_char (b mod 10)]"
      using bs by (subst py_str.simps) simp
    from ea eb "1.prems" have e1: "py_str (n div 10) = py_str (b div 10)"
      and e2: "digit_char (n mod 10) = digit_char (b mod 10)" by simp_all
    from "1.IH" [OF False e1] have d: "n div 10 = b div 10" .
    have m: "n mod 10 = b mod 10"
      by (rule digit_char_inj [OF _ _ e2]) simp_all
    have "n = 10 * (n div 10) + n mod 10" by simp
    also have "\<dots> = 10 * (b div 10) + b mod 10" using d m by simp
    also have "\<dots> = b" by simp
    finally show ?thesis .
  qed
qed

lemma candidate_inj: "candidate parent stem suffix i = candidate parent stem suffix j \<Longrightarrow> i = j"
  by (simp add: candidate_def joinpath_def py_str_inj)

lemma path_exists_cases: "path_exists w p \<Longrightarrow> p = [] \<or> p \<in> fst ` set (fs w)"
  unfolding path_exists_def lookup_def
  by (cases "p = []") (simp_all add: map_of_eq_None_iff)

lemma finite_occupied: "finite {j. path_exists w (candidate parent stem suffix j)}"
proof -
  have sub: "{j. path_exists w (candidate parent stem suffix j)}
      \<subseteq> (candidate parent stem suffix) -` (insert [] (fst ` set (fs w)))"
    using path_exists_cases by auto
  have "finite ((candidate parent stem suffix) -` (insert [] (fst ` set (fs w))))"
    by (rule finite_vimageI) (auto simp: inj_on_def dest: candidate_inj)
  with sub show ?thesis by (rule finite_subset)
qed

termination probe
proof (relation "measure (\<lambda>(w, parent, stem, suffix, i).
    card {j. i \<le> j \<and> path_exists w (candidate parent stem suffix j)})")
  show "wf (measure (\<lambda>(w, parent, stem, suffix, i).
    card {j. i \<le> j \<and> path_exists w (candidate parent stem suffix j)}))" by simp
next
  fix w parent stem suffix i
  assume ex: "\<not> \<not> path_exists w (candidate parent stem suffix i)"
  let ?S = "\<lambda>k. {j. k \<le> j \<and> path_exists w (candidate parent stem suffix j)}"
  have fin: "finite (?S i)"
    by (rule finite_subset [OF _ finite_occupied [of w parent stem suffix]]) auto
  have "i \<in> ?S i" using ex by simp
  moreover have "i \<notin> ?S (i + 1)" by simp
  moreover have "?S (i + 1) \<subseteq> ?S i" by auto
  ultimately have "?S (i + 1) \<subset> ?S i" by blast
  with fin have "card (?S (i + 1)) < card (?S i)" by (rule psubset_card_mono)
  then show "((w, parent, stem, suffix, i + 1), (w, parent, stem, suffix, i))
    \<in> measure (\<lambda>(w, parent, stem, suffix, i).
        card {j. i \<le> j \<and> path_exists w (candidate parent stem suffix j)})"
    by simp
qed

declare probe.simps [simp del]

section \<open>The file system and the allocator: auxiliary facts\<close>



lemma lookup_put:
  "lookup (put w p n) q = (if q = [] then Some Dir else if q = p then Some n else lookup w q)"
  by (simp add: lookup_def put_def update_conv')

lemma put_fields [simp]:
  "stdout (put w p n) = stdout w" "stderr (put w p n) = stderr w" "tz_reads (put w p n) = tz_reads w"
  by (simp_all add: put_def)

lemma path_exists_put: "path_exists (put w p n) q = (q = p \<or> path_exists w q)"
  unfolding path_exists_def lookup_put by (auto simp: lookup_def)

lemma probe_spec:
  "\<exists>j\<ge>i. probe w P S X i = candidate P S X j \<and> \<not> path_exists w (candidate P S X j)
      \<and> (\<forall>k. i \<le> k \<and> k < j \<longrightarrow> path_exists w (candidate P S X k))"
proof (induction w P S X i rule: probe.induct)
  case (1 w P S X i)
  show ?case
  proof (cases "path_exists w (candidate P S X i)")
    case False
    then have "probe w P S X i = candidate P S X i" by (subst probe.simps) simp
    with False show ?thesis by (intro exI [of _ i]) auto
  next
    case True
    then have eq: "probe w P S X i = probe w P S X (i + 1)" by (subst probe.simps) simp
    from "1.IH" True obtain j where j: "i + 1 \<le> j" "probe w P S X (i + 1) = candidate P S X j"
      "\<not> path_exists w (candidate P S X j)"
      "\<forall>k. i + 1 \<le> k \<and> k < j \<longrightarrow> path_exists w (candidate P S X k)" by auto
    have "\<forall>k. i \<le> k \<and> k < j \<longrightarrow> path_exists w (candidate P S X k)"
    proof (intro allI impI)
      fix k assume k: "i \<le> k \<and> k < j"
      show "path_exists w (candidate P S X k)"
      proof (cases "k = i")
        case True with \<open>path_exists w (candidate P S X i)\<close> show ?thesis by simp
      next
        case False with k j(4) show ?thesis by simp
      qed
    qed
    with j eq show ?thesis by (intro exI [of _ j]) simp
  qed
qed

lemma ensure_unique_path_fresh: "\<not> path_exists w (ensure_unique_path w p)"
  using probe_spec [of 1 w "path_parent p" "path_stem p" "path_suffix p"]
  by (auto simp: ensure_unique_path_def)

lemma stem_suffix: "path_stem p @ path_suffix p = path_name p"
  by (simp add: path_stem_def path_suffix_def Let_def split: option.splits)



lemma probe_unique:
  assumes free: "\<not> path_exists w (candidate P S X m)" and m: "1 \<le> m"
    and below: "\<forall>k. 1 \<le> k \<and> k < m \<longrightarrow> path_exists w (candidate P S X k)"
  shows "probe w P S X 1 = candidate P S X m"
proof -
  from probe_spec [of 1 w P S X] obtain j where j: "1 \<le> j" "probe w P S X 1 = candidate P S X j"
    "\<not> path_exists w (candidate P S X j)"
    "\<forall>k. 1 \<le> k \<and> k < j \<longrightarrow> path_exists w (candidate P S X k)" by auto
  have "\<not> j < m" using below j(1,3) by auto
  moreover have "\<not> m < j" using j(4) m free by auto
  ultimately have "j = m" by simp
  with j(2) show ?thesis by simp
qed

lemma candidate_neq_self:
  assumes "p \<noteq> []"
  shows "candidate (path_parent p) (path_stem p) (path_suffix p) j \<noteq> p"
proof
  assume e: "candidate (path_parent p) (path_stem p) (path_suffix p) j = p"
  then have "last (candidate (path_parent p) (path_stem p) (path_suffix p) j) = last p" by simp
  then have "path_stem p @ ''-'' @ py_str j @ path_suffix p = path_name p"
    using assms by (simp add: candidate_def joinpath_def path_name_def)
  then have "length (path_stem p @ ''-'' @ py_str j @ path_suffix p) = length (path_stem p @ path_suffix p)"
    by (simp only: stem_suffix)
  then show False by simp
qed

lemma requests_fresh: "r \<in> set (requests w p f n) \<Longrightarrow> \<not> path_exists w r"
proof (induction n arbitrary: w)
  case 0
  then show ?case by simp
next
  case (Suc n)
  let ?q = "ensure_unique_path w p"
  from Suc.prems have "r = ?q \<or> r \<in> set (requests (put w ?q f) p f n)" by (simp add: Let_def)
  then show ?case
  proof
    assume "r = ?q" then show ?thesis by (simp add: ensure_unique_path_fresh)
  next
    assume "r \<in> set (requests (put w ?q f) p f n)"
    then have "\<not> path_exists (put w ?q f) r" by (rule Suc.IH)
    then show ?thesis by (simp add: path_exists_put)
  qed
qed

lemma requests_distinct: "distinct (requests w p f n)"
proof (induction n arbitrary: w)
  case 0
  then show ?case by simp
next
  case (Suc n)
  let ?q = "ensure_unique_path w p"
  have "?q \<notin> set (requests (put w ?q f) p f n)"
    using requests_fresh [of ?q "put w ?q f" p f n] by (auto simp: path_exists_put)
  with Suc.IH [of "put w ?q f"] show ?case by (simp add: Let_def)
qed

lemma requests_length: "length (requests w p f n) = n"
  by (induction n arbitrary: w) (simp_all add: Let_def)

lemma requests_taken:
  assumes "path_exists w p" and "1 \<le> m"
    and "\<forall>k. 1 \<le> k \<and> k < m \<longrightarrow> path_exists w (candidate (path_parent p) (path_stem p) (path_suffix p) k)"
    and "\<forall>k. m \<le> k \<and> k < m + n \<longrightarrow> \<not> path_exists w (candidate (path_parent p) (path_stem p) (path_suffix p) k)"
  shows "requests w p f n = map (candidate (path_parent p) (path_stem p) (path_suffix p)) [m..<m + n]"
  using assms
proof (induction n arbitrary: w m)
  case 0
  then show ?case by simp
next
  case (Suc n)
  let ?c = "candidate (path_parent p) (path_stem p) (path_suffix p)"
  have free: "\<not> path_exists w (?c m)" using Suc.prems(4) by simp
  have q: "ensure_unique_path w p = ?c m"
    using Suc.prems(1) probe_unique [OF free Suc.prems(2) Suc.prems(3)]
    by (simp add: ensure_unique_path_def)
  let ?w = "put w (?c m) f"
  have a1: "path_exists ?w p" using Suc.prems(1) by (simp add: path_exists_put)
  have a3: "\<forall>k. 1 \<le> k \<and> k < Suc m \<longrightarrow> path_exists ?w (?c k)"
  proof (intro allI impI)
    fix k assume "1 \<le> k \<and> k < Suc m"
    then have "k = m \<or> (1 \<le> k \<and> k < m)" by auto
    then show "path_exists ?w (?c k)" using Suc.prems(3) by (auto simp: path_exists_put)
  qed
  have a4: "\<forall>k. Suc m \<le> k \<and> k < Suc m + n \<longrightarrow> \<not> path_exists ?w (?c k)"
  proof (intro allI impI)
    fix k assume k: "Suc m \<le> k \<and> k < Suc m + n"
    then have "?c k \<noteq> ?c m" using candidate_inj [of "path_parent p" "path_stem p" "path_suffix p" k m] by auto
    moreover have "\<not> path_exists w (?c k)" using Suc.prems(4) k by simp
    ultimately show "\<not> path_exists ?w (?c k)" by (simp add: path_exists_put)
  qed
  have "requests ?w p f n = map ?c [Suc m..<Suc m + n]"
    by (rule Suc.IH [OF a1 _ a3 a4]) simp
  moreover have "[m..<m + Suc n] = m # [Suc m..<Suc m + n]"
    using upt_conv_Cons [of m "m + Suc n"] by simp
  ultimately show ?case using q by (simp add: Let_def del: upt_Suc)
qed

lemma requests_from_free:
  assumes "\<not> path_exists w p"
    and "\<forall>i. 1 \<le> i \<and> i < n \<longrightarrow> \<not> path_exists w (candidate (path_parent p) (path_stem p) (path_suffix p) i)"
  shows "requests w p f n = take n (p # map (candidate (path_parent p) (path_stem p) (path_suffix p)) [1..<n])"
proof (cases n)
  case 0
  then show ?thesis by simp
next
  case (Suc n')
  let ?c = "candidate (path_parent p) (path_stem p) (path_suffix p)"
  have pne: "p \<noteq> []" using assms(1) by (auto simp: path_exists_def lookup_def)
  have q: "ensure_unique_path w p = p" using assms(1) by (simp add: ensure_unique_path_def)
  let ?w = "put w p f"
  have a1: "path_exists ?w p" by (simp add: path_exists_put)
  have a4: "\<forall>k. 1 \<le> k \<and> k < 1 + n' \<longrightarrow> \<not> path_exists ?w (?c k)"
    using assms(2) Suc candidate_neq_self [OF pne] by (auto simp: path_exists_put)
  have "requests ?w p f n' = map ?c [1..<1 + n']"
    by (rule requests_taken [OF a1 _ _ a4]) simp_all
  then show ?thesis using q Suc by (simp add: Let_def)
qed

section \<open>The parser: auxiliary facts\<close>

lemma of_char_digit_char: "d < 10 \<Longrightarrow> (of_char (digit_char d) :: nat) = 48 + d"
  by (simp add: digit_char_def)

lemma isdigit_digit_char: "d < 10 \<Longrightarrow> isdigit (digit_char d)"
  by (simp add: isdigit_def of_char_digit_char)

lemma digit_value_digit_char: "d < 10 \<Longrightarrow> digit_value (digit_char d) = d"
  by (simp add: digit_value_def of_char_digit_char)

lemma isdigit_zero: "isdigit (CHR ''0'')" and digit_value_zero: "digit_value (CHR ''0'') = 0"
  by (simp_all add: isdigit_def digit_value_def)

lemma py_str_digits: "list_all isdigit (py_str n)"
proof (induction n rule: py_str.induct)
  case (1 n)
  show ?case
  proof (cases "n < 10")
    case True
    then show ?thesis by (subst py_str.simps) (simp add: isdigit_digit_char)
  next
    case False
    with "1.IH" show ?thesis by (subst py_str.simps) (simp add: isdigit_digit_char)
  qed
qed

lemma py_int_snoc: "py_int (s @ [c]) = 10 * py_int s + digit_value c"
  by (simp add: py_int_def)

lemma py_int_py_str: "py_int (py_str n) = n"
proof (induction n rule: py_str.induct)
  case (1 n)
  show ?case
  proof (cases "n < 10")
    case True
    then show ?thesis by (subst py_str.simps) (simp add: py_int_def digit_value_digit_char)
  next
    case False
    then have "py_str n = py_str (n div 10) @ [digit_char (n mod 10)]"
      by (subst py_str.simps) simp
    then have "py_int (py_str n) = 10 * py_int (py_str (n div 10)) + digit_value (digit_char (n mod 10))"
      by (simp only: py_int_snoc)
    also have "\<dots> = 10 * (n div 10) + n mod 10"
      using "1.IH" [OF False] by (simp add: digit_value_digit_char)
    finally show ?thesis by simp
  qed
qed

lemma py_str_length: "n < 10 ^ k \<Longrightarrow> 1 \<le> k \<Longrightarrow> length (py_str n) \<le> k"
proof (induction n arbitrary: k rule: py_str.induct)
  case (1 n)
  show ?case
  proof (cases "n < 10")
    case True
    then have "py_str n = [digit_char n]" by (subst py_str.simps) simp
    with "1.prems" show ?thesis by simp
  next
    case False
    then have e: "py_str n = py_str (n div 10) @ [digit_char (n mod 10)]"
      by (subst py_str.simps) simp
    from False "1.prems" have k2: "2 \<le> k" by (cases "k = 1") auto
    then obtain k' where k': "k = Suc k'" "1 \<le> k'" by (cases k) auto
    from "1.prems"(1) k' have "n div 10 < 10 ^ k'" by (simp add: less_mult_imp_div_less mult.commute)
    from "1.IH" [OF False this k'(2)] show ?thesis using e k' by simp
  qed
qed

lemma py_int_zeros: "py_int (replicate k (CHR ''0'') @ s) = py_int s"
proof -
  have "foldl (\<lambda>acc c. 10 * acc + digit_value c) 0 (replicate k (CHR ''0'')) = 0"
    by (induction k) (simp_all add: digit_value_zero)
  then show ?thesis by (simp add: py_int_def)
qed

lemma py_int_zfill: "py_int (zfill k (py_str n)) = n"
  by (simp add: zfill_def py_int_zeros py_int_py_str)

lemma zfill_length: "length s \<le> k \<Longrightarrow> length (zfill k s) = k"
  by (simp add: zfill_def)

lemma zfill_digits: "list_all isdigit s \<Longrightarrow> list_all isdigit (zfill k s)"
  by (auto simp: zfill_def list_all_iff isdigit_zero)

lemma digits_zfill:
  assumes "n < 10 ^ k" "1 \<le> k"
  shows "digits k (zfill k (py_str n) @ r) = Some (zfill k (py_str n), r)"
proof -
  have l: "length (zfill k (py_str n)) = k"
    by (rule zfill_length) (rule py_str_length [OF assms])
  have d: "list_all isdigit (zfill k (py_str n))" by (rule zfill_digits) (rule py_str_digits)
  show ?thesis using l d by (simp add: digits_def)
qed

lemma hyphen_Cons: "hyphen (CHR ''-'' # r) = Some r"
  by simp

lemma FOLDER_RE_match_folder_name_of:
  assumes "y < 10000" "mo < 100" "d < 100" "h < 100" "mi < 100" "s < 100"
    and "r = [] \<or> r = [CHR 0x0A]"
  shows "FOLDER_RE_match (folder_name_of y mo d h mi s @ r)
    = Some (zfill 4 (py_str y), zfill 2 (py_str mo), zfill 2 (py_str d), zfill 2 (py_str h),
            zfill 2 (py_str mi), zfill 2 (py_str s))"
proof -
  have y: "y < 10 ^ 4" using assms(1) by simp
  have mo: "mo < 10 ^ 2" using assms(2) by simp
  have d: "d < 10 ^ 2" using assms(3) by simp
  have h: "h < 10 ^ 2" using assms(4) by simp
  have mi: "mi < 10 ^ 2" using assms(5) by simp
  have s: "s < 10 ^ 2" using assms(6) by simp
  have e: "at_end r" using assms(7) by (simp add: at_end_def)
  show ?thesis
    unfolding FOLDER_RE_match_def folder_name_of_def
    using e by (simp add: digits_zfill [OF y] digits_zfill [OF mo] digits_zfill [OF d]
        digits_zfill [OF h] digits_zfill [OF mi] digits_zfill [OF s])
qed

lemma days_in_month_le: "1 \<le> mo \<Longrightarrow> mo \<le> 12 \<Longrightarrow> days_in_month y mo \<le> 31"
proof -
  assume "1 \<le> mo" "mo \<le> 12"
  then have "mo \<in> {1, 2, 3, 4, 5, 6, 7, 8, 9, 10, 11, 12}" by (simp add: numeral_eq_Suc) arith
  then show ?thesis by (auto simp: days_in_month_def)
qed

lemma parse_valid:
  assumes "1 \<le> y" "y \<le> 9999" "1 \<le> mo" "mo \<le> 12" "1 \<le> d" "d \<le> days_in_month y mo"
    "h \<le> 23" "mi \<le> 59" "s \<le> 59"
    and name: "name = folder_name_of y mo d h mi s \<or> name = folder_name_of y mo d h mi s @ [CHR 0x0A]"
  shows "FOLDER_RE_match name
      = Some (zfill 4 (py_str y), zfill 2 (py_str mo), zfill 2 (py_str d), zfill 2 (py_str h),
              zfill 2 (py_str mi), zfill 2 (py_str s))"
    and "parse_folder_datetime host w name use_utc =
      (if use_utc
       then Inr (\<lparr>year = y, month = mo, day = d, hour = h, minute = mi, second = s,
                   tzinfo = timezone_utc\<rparr>, w)
       else Inr (\<lparr>year = y, month = mo, day = d, hour = h, minute = mi, second = s,
                   tzinfo = Timezone (local_offset host (tz_reads w))\<rparr>,
                 w\<lparr>tz_reads := Suc (tz_reads w)\<rparr>))"
proof -
  have d31: "d \<le> 31" using days_in_month_le [OF assms(3,4), of y] assms(6) by simp
  obtain r where r: "name = folder_name_of y mo d h mi s @ r" "r = [] \<or> r = [CHR 0x0A]"
    using name by auto
  show m: "FOLDER_RE_match name
      = Some (zfill 4 (py_str y), zfill 2 (py_str mo), zfill 2 (py_str d), zfill 2 (py_str h),
              zfill 2 (py_str mi), zfill 2 (py_str s))"
    unfolding r(1) using assms(2,4,7,8,9) d31 r(2)
    by (intro FOLDER_RE_match_folder_name_of) simp_all
  have dn: "datetime_new y mo d h mi s
      = Inr \<lparr>year = y, month = mo, day = d, hour = h, minute = mi, second = s\<rparr>"
    using assms(1-9) by (simp add: datetime_new_def)
  show "parse_folder_datetime host w name use_utc =
      (if use_utc
       then Inr (\<lparr>year = y, month = mo, day = d, hour = h, minute = mi, second = s,
                   tzinfo = timezone_utc\<rparr>, w)
       else Inr (\<lparr>year = y, month = mo, day = d, hour = h, minute = mi, second = s,
                   tzinfo = Timezone (local_offset host (tz_reads w))\<rparr>,
                 w\<lparr>tz_reads := Suc (tz_reads w)\<rparr>))"
    by (simp add: parse_folder_datetime_def m py_int_zfill dn replace_tzinfo_def local_tz_now_def)
qed

lemma entry_skipped:
  assumes "is_dir w entry"
    and "FOLDER_RE_match (path_name entry) = None
       \<or> (FOLDER_RE_match (path_name entry) = Some (gy, gmo, gd, gh, gmi, gs)
          \<and> \<not> (1 \<le> py_int gy \<and> py_int gy \<le> 9999 \<and> 1 \<le> py_int gmo \<and> py_int gmo \<le> 12
                \<and> 1 \<le> py_int gd \<and> py_int gd \<le> days_in_month (py_int gy) (py_int gmo)
                \<and> py_int gh \<le> 23 \<and> py_int gmi \<le> 59 \<and> py_int gs \<le> 59))"
  shows "entry_body host dest_dir use_utc write_exif entry (w, copied, skipped)
      = Inr (w, copied, skipped + 1)"
  using assms(2)
proof
  assume "FOLDER_RE_match (path_name entry) = None"
  then show ?thesis using assms(1) by (simp add: entry_body_def)
next
  assume a: "FOLDER_RE_match (path_name entry) = Some (gy, gmo, gd, gh, gmi, gs)
          \<and> \<not> (1 \<le> py_int gy \<and> py_int gy \<le> 9999 \<and> 1 \<le> py_int gmo \<and> py_int gmo \<le> 12
                \<and> 1 \<le> py_int gd \<and> py_int gd \<le> days_in_month (py_int gy) (py_int gmo)
                \<and> py_int gh \<le> 23 \<and> py_int gmi \<le> 59 \<and> py_int gs \<le> 59)"
  then have "datetime_new (py_int gy) (py_int gmo) (py_int gd) (py_int gh) (py_int gmi) (py_int gs)
      = Inl ValueError"
    unfolding datetime_new_def by (simp only: if_True if_False split: if_splits) auto
  then have "parse_folder_datetime host w (path_name entry) use_utc = Inl (Exc ValueError, w)"
    using a by (simp add: parse_folder_datetime_def)
  then show ?thesis using assms(1) a by (simp add: entry_body_def)
qed

lemma digit_char_digit_value: "isdigit c \<Longrightarrow> digit_char (digit_value c) = c"
  by (simp add: isdigit_def digit_char_def digit_value_def)

lemma digit_value_less: "isdigit c \<Longrightarrow> digit_value c < 10"
  by (auto simp: isdigit_def digit_value_def)

lemma py_str_zero: "py_str 0 = ''0''"
  by code_simp

lemma digit_string_zfill:
  "s \<noteq> [] \<Longrightarrow> list_all isdigit s \<Longrightarrow>
     zfill (length s) (py_str (py_int s)) = s \<and> length (py_str (py_int s)) \<le> length s"
proof (induction s rule: rev_induct)
  case Nil
  then show ?case by simp
next
  case (snoc c s)
  have c: "isdigit c" using snoc.prems(2) by simp
  let ?v = "digit_value c"
  have v: "?v < 10" using c by (rule digit_value_less)
  have dc: "digit_char ?v = c" using c by (rule digit_char_digit_value)
  have n: "py_int (s @ [c]) = 10 * py_int s + ?v" by (rule py_int_snoc)
  show ?case
  proof (cases "s = []")
    case True
    then have "py_int (s @ [c]) = ?v" by (simp add: py_int_def)
    moreover have "py_str ?v = [c]" using v dc by (subst py_str.simps) simp
    ultimately show ?thesis using True by (simp add: zfill_def)
  next
    case False
    have ds: "list_all isdigit s" using snoc.prems(2) by simp
    from snoc.IH [OF False ds]
    have ih: "zfill (length s) (py_str (py_int s)) = s"
      and len: "length (py_str (py_int s)) \<le> length s" by simp_all
    show ?thesis
    proof (cases "py_int s = 0")
      case True
      then have z: "s = replicate (length s - 1) (CHR ''0'') @ ''0''"
        using ih by (simp add: zfill_def py_str_zero)
      have "py_int (s @ [c]) = ?v" using n True by simp
      moreover have "py_str ?v = [c]" using v dc by (subst py_str.simps) simp
      moreover have "replicate (length s) (CHR ''0'') = s"
      proof -
        have "replicate (length s) (CHR ''0'') = replicate (length s - 1) (CHR ''0'') @ ''0''"
          using False by (cases s) (simp_all add: replicate_append_same)
        with z show ?thesis by simp
      qed
      ultimately show ?thesis by (simp add: zfill_def)
    next
      case nz: False
      then have big: "\<not> py_int (s @ [c]) < 10" using n by simp
      have "py_str (py_int (s @ [c])) = py_str (py_int s) @ [c]"
        using big n v dc by (subst py_str.simps) simp
      moreover have "replicate (length s - length (py_str (py_int s))) (CHR ''0'') @ py_str (py_int s) = s"
        using ih by (simp add: zfill_def)
      ultimately show ?thesis using len by (simp add: zfill_def)
    qed
  qed
qed

lemma digits_SomeD:
  "digits k s = Some (g, r) \<Longrightarrow> s = g @ r \<and> length g = k \<and> list_all isdigit g"
  by (auto simp: digits_def split: if_splits)

lemma hyphen_SomeD: "hyphen s = Some r \<Longrightarrow> s = ''-'' @ r"
  by (cases s) (auto split: if_splits)

lemma digits_group:
  assumes "digits k s = Some (g, r)" "1 \<le> k"
  shows "s = zfill k (py_str (py_int g)) @ r"
proof -
  from digits_SomeD [OF assms(1)] have s: "s = g @ r" and l: "length g = k" and d: "list_all isdigit g"
    by simp_all
  have "g \<noteq> []" using l assms(2) by auto
  from digit_string_zfill [OF this d] l s show ?thesis by simp
qed

lemma FOLDER_RE_match_complete:
  assumes "FOLDER_RE_match name = Some (gy, gmo, gd, gh, gmi, gs)"
  shows "name = folder_name_of (py_int gy) (py_int gmo) (py_int gd) (py_int gh) (py_int gmi) (py_int gs)
       \<or> name = folder_name_of (py_int gy) (py_int gmo) (py_int gd) (py_int gh) (py_int gmi) (py_int gs)
                  @ [CHR 0x0A]"
proof -
  from assms obtain r1 r1' r2 r2' r3 r3' r4 r4' r5 r5' r6 where
    g1: "digits 4 name = Some (gy, r1)" and h1: "hyphen r1 = Some r1'"
    and g2: "digits 2 r1' = Some (gmo, r2)" and h2: "hyphen r2 = Some r2'"
    and g3: "digits 2 r2' = Some (gd, r3)" and h3: "hyphen r3 = Some r3'"
    and g4: "digits 2 r3' = Some (gh, r4)" and h4: "hyphen r4 = Some r4'"
    and g5: "digits 2 r4' = Some (gmi, r5)" and h5: "hyphen r5 = Some r5'"
    and g6: "digits 2 r5' = Some (gs, r6)" and e: "at_end r6"
    unfolding FOLDER_RE_match_def
    by (auto simp: bind_eq_Some_conv split: if_splits)
  have "name = zfill 4 (py_str (py_int gy)) @ ''-'' @ zfill 2 (py_str (py_int gmo)) @ ''-''
      @ zfill 2 (py_str (py_int gd)) @ ''-'' @ zfill 2 (py_str (py_int gh)) @ ''-''
      @ zfill 2 (py_str (py_int gmi)) @ ''-'' @ zfill 2 (py_str (py_int gs)) @ r6"
    using digits_group [OF g1] digits_group [OF g2] digits_group [OF g3] digits_group [OF g4]
      digits_group [OF g5] digits_group [OF g6]
      hyphen_SomeD [OF h1] hyphen_SomeD [OF h2] hyphen_SomeD [OF h3] hyphen_SomeD [OF h4]
      hyphen_SomeD [OF h5]
    by simp
  then show ?thesis using e by (auto simp: folder_name_of_def at_end_def)
qed

section \<open>The file operations and the loops: auxiliary facts\<close>

lemma is_dir_put: "is_dir (put w p n) q = (if q = [] then True else if q = p then n = Dir else is_dir w q)"
  by (simp add: is_dir_def lookup_put)

lemma is_file_put:
  "is_file (put w p n) q = (if q = [] then False else if q = p then (\<exists>r c a m. n = File r c a m) else is_file w q)"
  unfolding is_file_def lookup_put by (cases n) (auto simp: lookup_def)

lemma not_exists_lookup: "\<not> path_exists w p \<Longrightarrow> lookup w p = None"
  by (simp add: path_exists_def)

lemma not_exists_nonroot: "\<not> path_exists w p \<Longrightarrow> p \<noteq> []"
  by (auto simp: path_exists_def lookup_def)

lemma path_parent_joinpath: "path_parent (joinpath d n) = d"
  by (simp add: path_parent_def joinpath_def)

lemma path_parent_candidate: "path_parent (candidate P S X i) = P"
  by (simp add: candidate_def path_parent_joinpath)

lemma ensure_unique_path_cases:
  "ensure_unique_path w p = p
   \<or> (\<exists>i\<ge>1. ensure_unique_path w p = candidate (path_parent p) (path_stem p) (path_suffix p) i)"
  using probe_spec [of 1 w "path_parent p" "path_stem p" "path_suffix p"]
  by (auto simp: ensure_unique_path_def)

lemma path_parent_ensure_unique_path: "path_parent (ensure_unique_path w p) = path_parent p"
  using ensure_unique_path_cases [of w p] by (auto simp: path_parent_candidate)

lemma copy2_fresh:
  assumes src: "lookup w src = Some (File True c a m)"
    and fresh: "\<not> path_exists w dst" and par: "is_dir w (path_parent dst)"
  shows "copy2 w src dst = Inr (put w dst (File True c a m))"
proof -
  have l: "lookup w dst = None" using fresh by (rule not_exists_lookup)
  then have nd: "\<not> is_dir w dst" by (simp add: is_dir_def)
  have ne: "dst \<noteq> src" using src l by auto
  show ?thesis using src l nd ne par by (simp add: copy2_def is_dir_def)
qed

lemma set_fs_times_put:
  assumes "p \<noteq> []"
  shows "set_fs_times (put w p (File r c a m)) p dt
    = Inr (put (put w p (File r c a m)) p (File r c (timestamp dt) (timestamp dt)))"
  using assms by (simp add: set_fs_times_def lookup_put Let_def)

lemma write_file_cases:
  "write_file host w p c' = Inl OSError
   \<or> (\<exists>r c a m. lookup w p = Some (File r c a m)
        \<and> write_file host w p c' = Inr (put w p (File r c' a (wall_clock host))))"
  by (auto simp: write_file_def split: option.splits node.splits)

lemma exif_try_cases:
  "(\<exists>e. exif_try host w p dt = Inl e)
   \<or> (\<exists>r c c' a m. lookup w p = Some (File r c a m)
        \<and> exif_try host w p dt = Inr (put w p (File r c' a (wall_clock host))))"
proof (cases "exif_try host w p dt")
  case (Inl e)
  then show ?thesis by blast
next
  case (Inr w')
  then obtain c' where "write_file host w p c' = Inr w'"
    by (auto simp: exif_try_def Let_def split: sum.splits)
  with write_file_cases [of host w p c'] Inr show ?thesis by auto
qed

lemma update_exif_datetime_cases:
  "update_exif_datetime host w p dt = Inr (False, w)
   \<or> (\<exists>r c c' a m. lookup w p = Some (File r c a m)
        \<and> update_exif_datetime host w p dt = Inr (True, put w p (File r c' a (wall_clock host))))"
  using exif_try_cases [of host w p dt]
  by (auto simp: update_exif_datetime_def)

lemma lookup_root: "lookup w [] = Some Dir"
  by (simp add: lookup_def)

lemma update_exif_datetime_shape:
  "\<exists>b w'. update_exif_datetime host w p dt = Inr (b, w') \<and> (\<not> b \<longrightarrow> w' = w)
      \<and> (w' = w \<or> (\<exists>r c a m. w' = put w p (File r c a m)))"
proof -
  from update_exif_datetime_cases [of host w p dt]
  consider "update_exif_datetime host w p dt = Inr (False, w)"
    | r c' a where "update_exif_datetime host w p dt = Inr (True, put w p (File r c' a (wall_clock host)))"
    by blast
  then show ?thesis
  proof cases
    case 1
    then show ?thesis by auto
  next
    case 2
    show ?thesis
      by (rule exI [of _ True], rule exI [of _ "put w p (File r c' a (wall_clock host))"])
        (use 2 in blast)
  qed
qed

lemma child_body_copies:
  assumes src: "lookup w child = Some (File True c a m)"
    and dst: "is_dir w dest_dir"
    and tgt: "lower (path_name child) \<in> TARGET_FILES"
  shows "\<exists>w'. child_body host dest_dir write_exif folder_name dt child (w, copied) = Inr (w', copied + 1)
           \<and> is_file w' (ensure_unique_path w (joinpath dest_dir (folder_name @ ''-'' @ path_name child)))
           \<and> (\<forall>q. q \<noteq> ensure_unique_path w (joinpath dest_dir (folder_name @ ''-'' @ path_name child))
                 \<longrightarrow> lookup w' q = lookup w q)
           \<and> (\<not> write_exif \<longrightarrow>
                 lookup w' (ensure_unique_path w (joinpath dest_dir (folder_name @ ''-'' @ path_name child)))
                   = Some (File True c (timestamp dt) (timestamp dt)))"
proof -
  let ?out = "ensure_unique_path w (joinpath dest_dir (folder_name @ ''-'' @ path_name child))"
  have fresh: "\<not> path_exists w ?out" by (rule ensure_unique_path_fresh)
  then have ne: "?out \<noteq> []" by (rule not_exists_nonroot)
  have par: "is_dir w (path_parent ?out)"
    using dst by (simp add: path_parent_ensure_unique_path path_parent_joinpath)
  let ?w1 = "put w ?out (File True c a m)"
  let ?w2 = "put ?w1 ?out (File True c (timestamp dt) (timestamp dt))"
  have cp: "copy2 w child ?out = Inr ?w1" using src fresh par by (rule copy2_fresh)
  have tm: "set_fs_times ?w1 ?out dt = Inr ?w2" using ne by (rule set_fs_times_put)
  have isf: "is_file w child" using src by (simp add: is_file_def)
  have body: "child_body host dest_dir write_exif folder_name dt child (w, copied)
      = (if write_exif
         then (case update_exif_datetime host ?w2 ?out dt of
                 Inl ew \<Rightarrow> Inl ew | Inr (updated, w3) \<Rightarrow> Inr (w3, copied + 1))
         else Inr (?w2, copied + 1))"
    using isf tgt cp tm by (simp add: child_body_def Let_def)
  have w2: "is_file ?w2 ?out \<and> (\<forall>q. q \<noteq> ?out \<longrightarrow> lookup ?w2 q = lookup w q)
      \<and> lookup ?w2 ?out = Some (File True c (timestamp dt) (timestamp dt))"
    using ne by (auto simp: is_file_put lookup_put lookup_root)
  show ?thesis
  proof (cases write_exif)
    case False
    then show ?thesis using body w2 by simp
  next
    case True
    from update_exif_datetime_shape [of host ?w2 ?out dt]
    obtain b w3 where u: "update_exif_datetime host ?w2 ?out dt = Inr (b, w3)"
      and w3: "w3 = ?w2 \<or> (\<exists>r c a m. w3 = put ?w2 ?out (File r c a m))"
      by blast
    have "is_file w3 ?out \<and> (\<forall>q. q \<noteq> ?out \<longrightarrow> lookup w3 q = lookup w q)"
      using w3 w2 ne by (auto simp: is_file_put lookup_put lookup_root)
    then show ?thesis using body True u by simp
  qed
qed

lemma child_body_ignores:
  assumes "\<not> is_file w child \<or> lower (path_name child) \<notin> TARGET_FILES"
  shows "child_body host dest_dir write_exif folder_name dt child (w, copied) = Inr (w, copied)"
  using assms by (auto simp: child_body_def)

lemma copy2_tz: "copy2 w src dst = Inr w' \<Longrightarrow> tz_reads w' = tz_reads w"
  by (auto simp: copy2_def Let_def split: option.splits node.splits if_splits)

lemma set_fs_times_tz: "set_fs_times w p dt = Inr w' \<Longrightarrow> tz_reads w' = tz_reads w"
  by (auto simp: set_fs_times_def Let_def split: option.splits node.splits)

lemma update_exif_datetime_tz: "update_exif_datetime host w p dt = Inr (b, w') \<Longrightarrow> tz_reads w' = tz_reads w"
  using update_exif_datetime_cases [of host w p dt] by auto

lemma update_exif_datetime_returns: "\<exists>b w'. update_exif_datetime host w p dt = Inr (b, w')"
  using update_exif_datetime_cases [of host w p dt] by auto

lemma child_body_tz:
  assumes "child_body host dest_dir write_exif folder_name dt child (w, copied) = Inr (w', copied')"
  shows "tz_reads w' = tz_reads w"
proof (cases "\<not> is_file w child \<or> lower (path_name child) \<notin> TARGET_FILES")
  case True
  then show ?thesis using assms child_body_ignores [OF True] by simp
next
  case False
  let ?out = "ensure_unique_path w (joinpath dest_dir (folder_name @ ''-'' @ path_name child))"
  from False assms obtain w1 where cp: "copy2 w child ?out = Inr w1"
    by (auto simp: child_body_def Let_def split: sum.splits)
  from False assms cp obtain w2 where tm: "set_fs_times w1 ?out dt = Inr w2"
    by (auto simp: child_body_def Let_def split: sum.splits)
  have t2: "tz_reads w2 = tz_reads w" using copy2_tz [OF cp] set_fs_times_tz [OF tm] by simp
  show ?thesis
  proof (cases write_exif)
    case False
    with \<open>\<not> (\<not> is_file w child \<or> lower (path_name child) \<notin> TARGET_FILES)\<close> assms cp tm t2
    show ?thesis by (auto simp: child_body_def Let_def)
  next
    case True
    obtain b w3 where u: "update_exif_datetime host w2 ?out dt = Inr (b, w3)"
      using update_exif_datetime_returns by blast
    with \<open>\<not> (\<not> is_file w child \<or> lower (path_name child) \<notin> TARGET_FILES)\<close> assms cp tm True
    have "w' = w3" by (auto simp: child_body_def Let_def)
    then show ?thesis using update_exif_datetime_tz [OF u] t2 by simp
  qed
qed

lemma child_body_no_exit:
  "child_body host dest_dir write_exif folder_name dt child st \<noteq> Inl (SystemExit msg, w')"
proof (cases st)
  case (Pair w copied)
  show ?thesis
    unfolding Pair child_body_def Let_def
    using update_exif_datetime_returns [of host _ _ dt]
    by (auto split: sum.splits prod.splits) (metis Inl_Inr_False)+
qed

lemma for_each_child_tz:
  "for_each (child_body host dest_dir write_exif folder_name dt) children (w, copied) = Inr (w', copied')
   \<Longrightarrow> tz_reads w' = tz_reads w"
proof (induction children arbitrary: w copied)
  case Nil
  then show ?case by simp
next
  case (Cons child children)
  from Cons.prems obtain w1 c1 where
    b: "child_body host dest_dir write_exif folder_name dt child (w, copied) = Inr (w1, c1)"
    and r: "for_each (child_body host dest_dir write_exif folder_name dt) children (w1, c1) = Inr (w', copied')"
    by (auto split: sum.splits)
  from Cons.IH [OF r] child_body_tz [OF b] show ?case by simp
qed

lemma for_each_no_exit:
  assumes "\<And>x st msg w'. body x st \<noteq> Inl (SystemExit msg, w')"
  shows "for_each body xs st \<noteq> Inl (SystemExit msg, w')"
proof (induction xs arbitrary: st)
  case Nil
  then show ?case by simp
next
  case (Cons x xs)
  show ?case
  proof (cases "body x st")
    case (Inl ew)
    then show ?thesis using assms [of x st] by (cases ew) auto
  next
    case (Inr st')
    then show ?thesis using Cons.IH [of st'] by simp
  qed
qed

lemma datetime_new_error: "datetime_new y mo d h mi s = Inl e \<Longrightarrow> e = ValueError"
  by (auto simp: datetime_new_def split: if_splits)

lemma parse_folder_datetime_error:
  "parse_folder_datetime host w name use_utc = Inl (e, w') \<Longrightarrow> e = Exc ValueError \<and> w' = w"
  by (auto simp: parse_folder_datetime_def local_tz_now_def Let_def
      split: option.splits sum.splits if_splits dest: datetime_new_error)

lemma entry_body_no_exit:
  "entry_body host dest_dir use_utc write_exif entry st \<noteq> Inl (SystemExit msg, w')"
proof (cases st)
  case (fields w copied skipped)
  show ?thesis
  proof (cases "parse_folder_datetime host w (path_name entry) use_utc")
    case (Inl ew)
    then obtain w1 where "ew = (Exc ValueError, w1)"
      using parse_folder_datetime_error [of host w "path_name entry" use_utc "fst ew" "snd ew"]
      by (cases ew) auto
    with Inl show ?thesis unfolding fields by (simp add: entry_body_def Let_def)
  next
    case (Inr r)
    obtain dt w1 where r: "r = (dt, w1)" by (cases r)
    have "for_each (child_body host dest_dir write_exif (path_name entry) dt) children (w1, copied)
        \<noteq> Inl (SystemExit msg, w')" for children
      by (rule for_each_no_exit) (rule child_body_no_exit)
    then show ?thesis
      unfolding fields using Inr r
      by (auto simp: entry_body_def Let_def split: sum.splits prod.splits)
  qed
qed

lemma entry_body_accepted_tz:
  assumes "is_dir w entry"
    and p: "parse_folder_datetime host w (path_name entry) use_utc = Inr (dt, w1)"
    and e: "entry_body host dest_dir use_utc write_exif entry (w, copied, skipped) = Inr (w', copied', skipped')"
  shows "tz_reads w' = tz_reads w1 \<and> skipped' = skipped"
proof -
  have m: "FOLDER_RE_match (path_name entry) \<noteq> None"
    using p by (auto simp: parse_folder_datetime_def split: option.splits)
  from e assms(1) m p obtain children where
    "for_each (child_body host dest_dir write_exif (path_name entry) dt) children (w1, copied)
       = Inr (w', copied')" and "skipped' = skipped"
    by (auto simp: entry_body_def Let_def split: sum.splits)
  then show ?thesis using for_each_child_tz by blast
qed

lemma mkdir_fold:
  assumes "[] \<notin> set qs" and "\<forall>q\<in>set qs. path_exists w q \<longrightarrow> is_dir w q"
  shows "(\<forall>q\<in>set qs. is_dir (foldl (\<lambda>w q. if path_exists w q then w else put w q Dir) w qs) q)
       \<and> (\<forall>q. is_dir w q \<longrightarrow> is_dir (foldl (\<lambda>w q. if path_exists w q then w else put w q Dir) w qs) q)"
  using assms
proof (induction qs arbitrary: w)
  case Nil
  then show ?case by simp
next
  case (Cons a qs)
  let ?step = "\<lambda>w q. if path_exists w q then w else put w q Dir"
  let ?w1 = "?step w a"
  have a: "a \<noteq> []" using Cons.prems(1) by auto
  have keep: "is_dir w q \<Longrightarrow> is_dir ?w1 q" for q
    by (cases "q = a") (auto simp: is_dir_put lookup_put is_dir_def path_exists_def)
  have da: "is_dir ?w1 a" using Cons.prems(2) a by (simp add: is_dir_put)
  have ex: "path_exists ?w1 q \<Longrightarrow> q = a \<or> path_exists w q" for q
    by (auto simp: path_exists_put split: if_splits)
  have pre: "\<forall>q\<in>set qs. path_exists ?w1 q \<longrightarrow> is_dir ?w1 q"
  proof (intro ballI impI)
    fix q assume q: "q \<in> set qs" and pe: "path_exists ?w1 q"
    from pe have "q = a \<or> path_exists w q" by (rule ex)
    then show "is_dir ?w1 q" using da keep Cons.prems(2) q by auto
  qed
  have ne: "[] \<notin> set qs" using Cons.prems(1) by simp
  from Cons.IH [OF ne pre]
  have ih1: "\<forall>q\<in>set qs. is_dir (foldl ?step ?w1 qs) q"
    and ih2: "\<forall>q. is_dir ?w1 q \<longrightarrow> is_dir (foldl ?step ?w1 qs) q" by blast+
  have f: "foldl ?step w (a # qs) = foldl ?step ?w1 qs" by simp
  show ?case unfolding f using ih1 ih2 da keep by auto
qed

lemma ancestors_nonroot: "[] \<notin> set (ancestors_and_self p)"
  by (auto simp: ancestors_and_self_def)

lemma self_in_ancestors: "p \<noteq> [] \<Longrightarrow> p \<in> set (ancestors_and_self p)"
proof -
  assume "p \<noteq> []"
  then have "length p \<in> set [1..<Suc (length p)]" by (cases p) auto
  then have "take (length p) p \<in> (\<lambda>k. take k p) ` set [1..<Suc (length p)]"
    by (rule imageI)
  then show ?thesis by (simp add: ancestors_and_self_def)
qed

lemma mkdir_parents_dirs:
  assumes "mkdir_parents w p = Inr w'"
  shows "is_dir w' p \<and> (\<forall>q\<in>set (ancestors_and_self p). is_dir w' q)"
proof -
  let ?step = "\<lambda>w q. if path_exists w q then w else put w q Dir"
  from assms have ok: "\<forall>q\<in>set (ancestors_and_self p). path_exists w q \<longrightarrow> is_dir w q"
    and w': "w' = foldl ?step w (ancestors_and_self p)"
    by (auto simp: mkdir_parents_def list_ex_iff split: if_splits)
  from mkdir_fold [OF ancestors_nonroot ok]
  have all: "\<forall>q\<in>set (ancestors_and_self p). is_dir w' q" unfolding w' by blast
  show ?thesis
  proof (cases "p = []")
    case True
    then show ?thesis using all by (simp add: is_dir_def lookup_root)
  next
    case False
    then show ?thesis using all self_in_ancestors by blast
  qed
qed

section \<open>Runs of the script\<close>

lemma run_h_shift:
  "script h_shift w_export [''src''] [''out''] False False
     = (0, (put (put (put w_export
              [''out'', ''2022-11-07-15-09-47-primary.jpg''] (File True ''abc'' 1667830187 1667830187))
              [''out'', ''2022-11-07-15-09-47-MERGED.JPG''] (File True ''mm'' 1667830187 1667830187))
              [''out'', ''2022-11-07-15-09-48-primary.jpg''] (File True ''def'' 1667826588 1667826588))
            \<lparr>stdout := [''Done. Copied: 3, Skipped folders (non-matching pattern): 2'',
                        ''Output folder: /out''],
             tz_reads := 2\<rparr>)"
  by code_simp

lemma script_missing_source:
  assumes "mkdir_parents w dest = Inr w1" and "\<not> is_dir w1 source"
  shows "script host w source dest utc exif
    = (1, w1\<lparr>stderr := stderr w1
              @ [''Source directory does not exist or is not a directory: '' @ path_str source]\<rparr>)"
  using assms by (simp add: script_def main_def)

section \<open>The claims\<close>

text \<open>
  C1. An entry of the source directory that is a directory, and whose name either does
  not match the folder pattern or matches it with fields that are no calendar date and
  time of day (month 13, say), adds exactly one to \<open>skipped\<close>, leaves \<open>copied\<close> and the
  world as they are, and the loop goes on with the next entry.
\<close>

theorem unparsable_folder_skipped:
  assumes "is_dir w entry"
    and "FOLDER_RE_match (path_name entry) = None
       \<or> (FOLDER_RE_match (path_name entry) = Some (gy, gmo, gd, gh, gmi, gs)
          \<and> \<not> (1 \<le> py_int gy \<and> py_int gy \<le> 9999 \<and> 1 \<le> py_int gmo \<and> py_int gmo \<le> 12
                \<and> 1 \<le> py_int gd \<and> py_int gd \<le> days_in_month (py_int gy) (py_int gmo)
                \<and> py_int gh \<le> 23 \<and> py_int gmi \<le> 59 \<and> py_int gs \<le> 59))"
  shows "entry_body host dest_dir use_utc write_exif entry (w, copied, skipped)
           = Inr (w, copied, skipped + 1)
       \<and> for_each (entry_body host dest_dir use_utc write_exif) (entry # rest) (w, copied, skipped)
           = for_each (entry_body host dest_dir use_utc write_exif) rest (w, copied, skipped + 1)"
  using entry_skipped [OF assms, of host dest_dir use_utc write_exif copied skipped]
  by simp

text \<open>
  An instance of C1: in the example export, \<open>badname\<close> does not match the pattern and
  \<open>2022-13-07-15-09-47\<close> matches it with month 13; the loop over both counts two skipped
  folders and copies nothing.
\<close>

theorem unparsable_folder_skipped_witness:
  "is_dir w_export [''src'', ''badname'']
   \<and> FOLDER_RE_match ''badname'' = None
   \<and> entry_body h_plain [''out''] False False [''src'', ''badname''] (w_export, 0, 0)
       = Inr (w_export, 0, 1)
   \<and> is_dir w_export [''src'', ''2022-13-07-15-09-47'']
   \<and> FOLDER_RE_match ''2022-13-07-15-09-47'' = Some (''2022'', ''13'', ''07'', ''15'', ''09'', ''47'')
   \<and> py_int ''13'' = 13
   \<and> for_each (entry_body h_plain [''out''] False False)
        [[''src'', ''2022-13-07-15-09-47''], [''src'', ''badname'']] (w_export, 0, 0)
       = Inr (w_export, 0, 2)"
proof -
  have d1: "is_dir w_export [''src'', ''badname'']" by code_simp
  have n1: "FOLDER_RE_match (path_name [''src'', ''badname'']) = None" by code_simp
  have n1': "FOLDER_RE_match ''badname'' = None" by code_simp
  have d2: "is_dir w_export [''src'', ''2022-13-07-15-09-47'']" by code_simp
  have m2: "FOLDER_RE_match (path_name [''src'', ''2022-13-07-15-09-47''])
      = Some (''2022'', ''13'', ''07'', ''15'', ''09'', ''47'')" by code_simp
  have m2': "FOLDER_RE_match ''2022-13-07-15-09-47''
      = Some (''2022'', ''13'', ''07'', ''15'', ''09'', ''47'')" by code_simp
  have v: "py_int ''13'' = 13" by code_simp
  then have bad: "\<not> (1 \<le> py_int ''2022'' \<and> py_int ''2022'' \<le> 9999 \<and> 1 \<le> py_int ''13'' \<and> py_int ''13'' \<le> 12
                \<and> 1 \<le> py_int ''07'' \<and> py_int ''07'' \<le> days_in_month (py_int ''2022'') (py_int ''13'')
                \<and> py_int ''15'' \<le> 23 \<and> py_int ''09'' \<le> 59 \<and> py_int ''47'' \<le> 59)" by simp
  have s1: "entry_body h_plain [''out''] False False [''src'', ''badname''] (w_export, 0, 0)
       = Inr (w_export, 0, 0 + 1)"
    using unparsable_folder_skipped [OF d1, of gy gmo gd gh gmi gs h_plain "[''out'']" False False 0 0 "[]"] n1
    by blast
  have s3: "entry_body h_plain [''out''] False False [''src'', ''badname''] (w_export, 0, 1)
       = Inr (w_export, 0, 1 + 1)"
    using unparsable_folder_skipped [OF d1, of gy gmo gd gh gmi gs h_plain "[''out'']" False False 0 1 "[]"] n1
    by blast
  have s2: "for_each (entry_body h_plain [''out''] False False)
        ([''src'', ''2022-13-07-15-09-47''] # [[''src'', ''badname'']]) (w_export, 0, 0)
       = for_each (entry_body h_plain [''out''] False False) [[''src'', ''badname'']] (w_export, 0, 0 + 1)"
    using unparsable_folder_skipped [OF d2, of "''2022''" "''13''" "''07''" "''15''" "''09''" "''47''"
        h_plain "[''out'']" False False 0 0 "[[''src'', ''badname'']]"] m2 bad
    by blast
  have "for_each (entry_body h_plain [''out''] False False)
        [[''src'', ''2022-13-07-15-09-47''], [''src'', ''badname'']] (w_export, 0, 0)
       = Inr (w_export, 0, 2)"
    using s2 s3 by simp
  then show ?thesis using d1 n1' s1 d2 m2' v by simp
qed

text \<open>
  C2. For every folder name \<open>YYYY-MM-DD-HH-MM-SS\<close> whose six fields are a calendar date
  and a time of day, the six groups of the pattern read back as exactly those integers,
  in the order year, month, day, hour, minute, second, and with the UTC flag
  \<open>parse_folder_datetime\<close> returns the datetime of those fields with \<open>timezone.utc\<close>
  attached (nothing else changes). Every string that the pattern matches is such a
  name, written from the integers of its groups (with, at most, one newline after it).
\<close>

theorem parse_folder_datetime_utc:
  "(1 \<le> y \<and> y \<le> 9999 \<and> 1 \<le> mo \<and> mo \<le> 12 \<and> 1 \<le> d \<and> d \<le> days_in_month y mo
      \<and> h \<le> 23 \<and> mi \<le> 59 \<and> s \<le> 59
      \<and> (name = folder_name_of y mo d h mi s \<or> name = folder_name_of y mo d h mi s @ [CHR 0x0A])
    \<longrightarrow> map_option (\<lambda>(gy, gmo, gd, gh, gmi, gs).
            (py_int gy, py_int gmo, py_int gd, py_int gh, py_int gmi, py_int gs))
          (FOLDER_RE_match name) = Some (y, mo, d, h, mi, s)
        \<and> parse_folder_datetime host w name True
            = Inr (\<lparr>year = y, month = mo, day = d, hour = h, minute = mi, second = s,
                     tzinfo = timezone_utc\<rparr>, w))
   \<and> (FOLDER_RE_match name = Some (gy, gmo, gd, gh, gmi, gs)
    \<longrightarrow> name = folder_name_of (py_int gy) (py_int gmo) (py_int gd) (py_int gh) (py_int gmi) (py_int gs)
        \<or> name = folder_name_of (py_int gy) (py_int gmo) (py_int gd) (py_int gh) (py_int gmi)
                   (py_int gs) @ [CHR 0x0A])"
proof (rule conjI; rule impI)
  assume a: "1 \<le> y \<and> y \<le> 9999 \<and> 1 \<le> mo \<and> mo \<le> 12 \<and> 1 \<le> d \<and> d \<le> days_in_month y mo
      \<and> h \<le> 23 \<and> mi \<le> 59 \<and> s \<le> 59
      \<and> (name = folder_name_of y mo d h mi s \<or> name = folder_name_of y mo d h mi s @ [CHR 0x0A])"
  then have v: "1 \<le> y" "y \<le> 9999" "1 \<le> mo" "mo \<le> 12" "1 \<le> d" "d \<le> days_in_month y mo"
    "h \<le> 23" "mi \<le> 59" "s \<le> 59"
    "name = folder_name_of y mo d h mi s \<or> name = folder_name_of y mo d h mi s @ [CHR 0x0A]"
    by simp_all
  show "map_option (\<lambda>(gy, gmo, gd, gh, gmi, gs).
            (py_int gy, py_int gmo, py_int gd, py_int gh, py_int gmi, py_int gs))
          (FOLDER_RE_match name) = Some (y, mo, d, h, mi, s)
        \<and> parse_folder_datetime host w name True
            = Inr (\<lparr>year = y, month = mo, day = d, hour = h, minute = mi, second = s,
                     tzinfo = timezone_utc\<rparr>, w)"
    using parse_valid(1) [OF v] parse_valid(2) [OF v, of host w True]
    by (simp add: py_int_zfill)
next
  assume "FOLDER_RE_match name = Some (gy, gmo, gd, gh, gmi, gs)"
  then show "name = folder_name_of (py_int gy) (py_int gmo) (py_int gd) (py_int gh) (py_int gmi) (py_int gs)
        \<or> name = folder_name_of (py_int gy) (py_int gmo) (py_int gd) (py_int gh) (py_int gmi)
                   (py_int gs) @ [CHR 0x0A]"
    by (rule FOLDER_RE_match_complete)
qed

text \<open>An instance of C2: the name \<open>2022-11-07-15-09-47\<close>, and the groups of a matching name.\<close>

theorem parse_folder_datetime_utc_witness:
  "7 \<le> days_in_month 2022 11
   \<and> folder_name_of 2022 11 7 15 9 47 = ''2022-11-07-15-09-47''
   \<and> parse_folder_datetime h_plain w_export ''2022-11-07-15-09-47'' True
       = Inr (\<lparr>year = 2022, month = 11, day = 7, hour = 15, minute = 9, second = 47,
                tzinfo = timezone_utc\<rparr>, w_export)
   \<and> FOLDER_RE_match ''2022-13-07-15-09-47'' = Some (''2022'', ''13'', ''07'', ''15'', ''09'', ''47'')
   \<and> ''2022-13-07-15-09-47''
       = folder_name_of (py_int ''2022'') (py_int ''13'') (py_int ''07'') (py_int ''15'')
           (py_int ''09'') (py_int ''47'')"
proof -
  have dim: "7 \<le> days_in_month 2022 11" by code_simp
  have nm: "folder_name_of 2022 11 7 15 9 47 = ''2022-11-07-15-09-47''" by code_simp
  have m: "FOLDER_RE_match ''2022-13-07-15-09-47''
      = Some (''2022'', ''13'', ''07'', ''15'', ''09'', ''47'')" by code_simp
  have "parse_folder_datetime h_plain w_export (folder_name_of 2022 11 7 15 9 47) True
       = Inr (\<lparr>year = 2022, month = 11, day = 7, hour = 15, minute = 9, second = 47,
                tzinfo = timezone_utc\<rparr>, w_export)"
    using parse_folder_datetime_utc [of 2022 11 7 15 9 47 "folder_name_of 2022 11 7 15 9 47"
        h_plain w_export] dim
    by simp
  moreover have "''2022-13-07-15-09-47''
       = folder_name_of (py_int ''2022'') (py_int ''13'') (py_int ''07'') (py_int ''15'')
           (py_int ''09'') (py_int ''47'')"
    using parse_folder_datetime_utc [of y mo d h mi s "''2022-13-07-15-09-47''" host w
        "''2022''" "''13''" "''07''" "''15''" "''09''" "''47''"] m
    by auto
  ultimately show ?thesis using dim nm m by simp
qed

text \<open>
  C3. \<open>ensure_unique_path\<close> returns the desired path unchanged when nothing occupies it.
  Otherwise it returns the candidate \<open>stem-i.ext\<close> (line 53, built from the parent, the
  stem and the suffix of the desired path) for the smallest \<open>i \<ge> 1\<close> whose candidate is
  unoccupied: that candidate is free, and every candidate with a smaller index is taken.
\<close>

theorem ensure_unique_path_first_free:
  "(\<not> path_exists w p \<longrightarrow> ensure_unique_path w p = p) \<and>
   (path_exists w p \<longrightarrow>
      (\<exists>i\<ge>1. ensure_unique_path w p = candidate (path_parent p) (path_stem p) (path_suffix p) i
         \<and> \<not> path_exists w (candidate (path_parent p) (path_stem p) (path_suffix p) i)
         \<and> (\<forall>j. 1 \<le> j \<and> j < i \<longrightarrow>
               path_exists w (candidate (path_parent p) (path_stem p) (path_suffix p) j))))"
  using probe_spec [of 1 w "path_parent p" "path_stem p" "path_suffix p"]
  by (simp add: ensure_unique_path_def)

text \<open>An instance of C3: \<open>a.jpg\<close> and \<open>a-1.jpg\<close> are taken, \<open>b.jpg\<close> is free.\<close>

theorem ensure_unique_path_first_free_witness:
  "path_exists w_taken [''out'', ''a.jpg'']
   \<and> ensure_unique_path w_taken [''out'', ''a.jpg''] = [''out'', ''a-2.jpg'']
   \<and> (\<exists>i\<ge>1. ensure_unique_path w_taken [''out'', ''a.jpg'']
          = candidate (path_parent [''out'', ''a.jpg'']) (path_stem [''out'', ''a.jpg''])
              (path_suffix [''out'', ''a.jpg'']) i)
   \<and> \<not> path_exists w_taken [''out'', ''b.jpg'']
   \<and> ensure_unique_path w_taken [''out'', ''b.jpg''] = [''out'', ''b.jpg'']"
proof -
  have taken: "path_exists w_taken [''out'', ''a.jpg'']" by code_simp
  have free: "\<not> path_exists w_taken [''out'', ''b.jpg'']" by code_simp
  have val: "ensure_unique_path w_taken [''out'', ''a.jpg''] = [''out'', ''a-2.jpg'']"
    by code_simp
  have "\<exists>i\<ge>1. ensure_unique_path w_taken [''out'', ''a.jpg'']
          = candidate (path_parent [''out'', ''a.jpg'']) (path_stem [''out'', ''a.jpg''])
              (path_suffix [''out'', ''a.jpg'']) i"
    using ensure_unique_path_first_free [of w_taken "[''out'', ''a.jpg'']"] taken by blast
  moreover have "ensure_unique_path w_taken [''out'', ''b.jpg''] = [''out'', ''b.jpg'']"
    using ensure_unique_path_first_free [of w_taken "[''out'', ''b.jpg'']"] free by blast
  ultimately show ?thesis using taken free val by blast
qed

text \<open>
  C4, as the code has it. Without the UTC flag, \<open>parse_folder_datetime\<close> attaches to the
  fields of the folder name the host's zone offset as the host reports it during that
  very call: every parse of a well-formed name is one more reading of the offset. The
  loop body of an accepted folder makes exactly one reading, whatever the folder
  contains, so the files of one folder share an offset and two folders of one run share
  it only while the host's offset stays the same between their readings.
\<close>

theorem local_offset_read_at_each_parse:
  assumes "1 \<le> y" "y \<le> 9999" "1 \<le> mo" "mo \<le> 12" "1 \<le> d" "d \<le> days_in_month y mo"
    "h \<le> 23" "mi \<le> 59" "s \<le> 59"
    and "name = folder_name_of y mo d h mi s \<or> name = folder_name_of y mo d h mi s @ [CHR 0x0A]"
  shows "parse_folder_datetime host w name False
        = Inr (\<lparr>year = y, month = mo, day = d, hour = h, minute = mi, second = s,
                 tzinfo = Timezone (local_offset host (tz_reads w))\<rparr>,
               w\<lparr>tz_reads := Suc (tz_reads w)\<rparr>)
    \<and> (is_dir w entry \<and> path_name entry = name
         \<and> entry_body host dest_dir False write_exif entry (w, copied, skipped)
             = Inr (w', copied', skipped')
       \<longrightarrow> tz_reads w' = Suc (tz_reads w) \<and> skipped' = skipped)"
proof -
  have p: "parse_folder_datetime host w name False
        = Inr (\<lparr>year = y, month = mo, day = d, hour = h, minute = mi, second = s,
                 tzinfo = Timezone (local_offset host (tz_reads w))\<rparr>,
               w\<lparr>tz_reads := Suc (tz_reads w)\<rparr>)"
    using parse_valid(2) [OF assms, of host w False] by simp
  have "tz_reads w' = Suc (tz_reads w) \<and> skipped' = skipped"
    if "is_dir w entry" "path_name entry = name"
      "entry_body host dest_dir False write_exif entry (w, copied, skipped) = Inr (w', copied', skipped')"
    using entry_body_accepted_tz [OF that(1) p [folded that(2)] that(3)] by simp
  with p show ?thesis by blast
qed

text \<open>
  An instance of C4: two parses of the same name on a host whose offset changes in
  between give two different zones, and the loop body of a folder with two target
  files makes one reading.
\<close>

theorem local_offset_read_at_each_parse_witness:
  "7 \<le> days_in_month 2022 11
   \<and> folder_name_of 2022 11 7 15 9 47 = ''2022-11-07-15-09-47''
   \<and> parse_folder_datetime h_shift w_export ''2022-11-07-15-09-47'' False
       = Inr (\<lparr>year = 2022, month = 11, day = 7, hour = 15, minute = 9, second = 47,
                tzinfo = Timezone 3600\<rparr>, w_export\<lparr>tz_reads := 1\<rparr>)
   \<and> parse_folder_datetime h_shift (w_export\<lparr>tz_reads := 1\<rparr>) ''2022-11-07-15-09-47'' False
       = Inr (\<lparr>year = 2022, month = 11, day = 7, hour = 15, minute = 9, second = 47,
                tzinfo = Timezone 7200\<rparr>, w_export\<lparr>tz_reads := 2\<rparr>)
   \<and> is_dir w_export [''src'', ''2022-11-07-15-09-47'']
   \<and> entry_body h_shift [''out''] False False [''src'', ''2022-11-07-15-09-47''] (w_export, 0, 0)
       = Inr ((put (put w_export [''out'', ''2022-11-07-15-09-47-primary.jpg'']
                      (File True ''abc'' 1667830187 1667830187))
                 [''out'', ''2022-11-07-15-09-47-MERGED.JPG''] (File True ''mm'' 1667830187 1667830187))
               \<lparr>tz_reads := 1\<rparr>, 2, 0)
   \<and> tz_reads ((put (put w_export [''out'', ''2022-11-07-15-09-47-primary.jpg'']
                      (File True ''abc'' 1667830187 1667830187))
                 [''out'', ''2022-11-07-15-09-47-MERGED.JPG''] (File True ''mm'' 1667830187 1667830187))
               \<lparr>tz_reads := 1\<rparr>) = Suc (tz_reads w_export)"
proof -
  let ?e = "[''src'', ''2022-11-07-15-09-47'']"
  let ?w2 = "(put (put w_export [''out'', ''2022-11-07-15-09-47-primary.jpg'']
                      (File True ''abc'' 1667830187 1667830187))
                 [''out'', ''2022-11-07-15-09-47-MERGED.JPG''] (File True ''mm'' 1667830187 1667830187))
               \<lparr>tz_reads := 1\<rparr>"
  have dim: "7 \<le> days_in_month 2022 11" by code_simp
  have nm: "folder_name_of 2022 11 7 15 9 47 = ''2022-11-07-15-09-47''" by code_simp
  have o0: "local_offset h_shift 0 = 3600" and o1: "local_offset h_shift 1 = 7200"
    by (simp_all add: h_shift_def)
  have t0: "tz_reads w_export = 0" by (simp add: w_export_def)
  have de: "is_dir w_export ?e" by code_simp
  have pn: "path_name ?e = folder_name_of 2022 11 7 15 9 47" by code_simp
  have ee: "entry_body h_shift [''out''] False False ?e (w_export, 0, 0) = Inr (?w2, 2, 0)"
    by code_simp
  have "parse_folder_datetime h_shift w_export (folder_name_of 2022 11 7 15 9 47) False
       = Inr (\<lparr>year = 2022, month = 11, day = 7, hour = 15, minute = 9, second = 47,
                tzinfo = Timezone 3600\<rparr>, w_export\<lparr>tz_reads := 1\<rparr>)"
    using local_offset_read_at_each_parse [of 2022 11 7 15 9 47 "folder_name_of 2022 11 7 15 9 47"
        h_shift w_export] dim o0 t0
    by simp
  moreover have "parse_folder_datetime h_shift (w_export\<lparr>tz_reads := 1\<rparr>) (folder_name_of 2022 11 7 15 9 47) False
       = Inr (\<lparr>year = 2022, month = 11, day = 7, hour = 15, minute = 9, second = 47,
                tzinfo = Timezone 7200\<rparr>, w_export\<lparr>tz_reads := 2\<rparr>)"
    using local_offset_read_at_each_parse [of 2022 11 7 15 9 47 "folder_name_of 2022 11 7 15 9 47"
        h_shift "w_export\<lparr>tz_reads := 1\<rparr>"] dim o1
    by simp
  moreover have "tz_reads ?w2 = Suc (tz_reads w_export)"
    using local_offset_read_at_each_parse [of 2022 11 7 15 9 47 "folder_name_of 2022 11 7 15 9 47"
        h_shift w_export ?e "[''out'']" False 0 0 ?w2 2 0] dim de pn ee
    by simp
  ultimately show ?thesis using dim nm de ee by simp
qed

text \<open>
  C4, as the specification states it, fails: the offset is not captured once per run.
  On a host whose offset changes from +1 h to +2 h after the first reading, one run
  stamps the file of folder \<open>2022-11-07-15-09-47\<close> with 15:09:47 at +1 h and the file of
  folder \<open>2022-11-07-15-09-48\<close> with 15:09:48 at +2 h (1667833787 is 15:09:47 UTC of
  that day): the two stamps are 3599 seconds apart the wrong way round, where one
  captured offset would put them one second apart.
\<close>

theorem offset_read_per_folder_counterexample:
  "lookup (snd (script h_shift w_export [''src''] [''out''] False False))
       [''out'', ''2022-11-07-15-09-47-primary.jpg'']
     = Some (File True ''abc'' (1667833787 - 3600) (1667833787 - 3600))
   \<and> lookup (snd (script h_shift w_export [''src''] [''out''] False False))
       [''out'', ''2022-11-07-15-09-48-primary.jpg'']
     = Some (File True ''def'' (1667833788 - 7200) (1667833788 - 7200))
   \<and> tz_reads (snd (script h_shift w_export [''src''] [''out''] False False)) = 2
   \<and> fst (script h_shift w_export [''src''] [''out''] False False) = 0"
  unfolding run_h_shift by code_simp

text \<open>
  C5. \<open>update_exif_datetime\<close> always returns a boolean and never raises, whether piexif
  is missing or anything in its \<open>try\<close> block raises, and a \<open>False\<close> result leaves the
  world as it was. In the loop body the call changes neither the count nor whether the
  body raises: a file that is counted as copied without the EXIF option is counted as
  copied with it, and whenever the body raises with the option it raises the same
  without it.
\<close>

theorem update_exif_datetime_never_raises:
  "(\<exists>updated w'. update_exif_datetime host w p dt = Inr (updated, w') \<and> (\<not> updated \<longrightarrow> w' = w))
   \<and> (child_body host dest_dir False folder_name dt child st = Inr (w2, copied')
        \<longrightarrow> (\<exists>w3. child_body host dest_dir True folder_name dt child st = Inr (w3, copied')))
   \<and> (child_body host dest_dir True folder_name dt child st = Inl ew
        \<longrightarrow> child_body host dest_dir False folder_name dt child st = Inl ew)"
proof (intro conjI impI)
  show "\<exists>updated w'. update_exif_datetime host w p dt = Inr (updated, w') \<and> (\<not> updated \<longrightarrow> w' = w)"
    using update_exif_datetime_shape [of host w p dt] by blast
next
  obtain w0 copied where st: "st = (w0, copied)" by (cases st)
  let ?out = "ensure_unique_path w0 (joinpath dest_dir (folder_name @ ''-'' @ path_name child))"
  {
    assume a: "child_body host dest_dir False folder_name dt child st = Inr (w2, copied')"
    show "\<exists>w3. child_body host dest_dir True folder_name dt child st = Inr (w3, copied')"
    proof (cases "\<not> is_file w0 child \<or> lower (path_name child) \<notin> TARGET_FILES")
      case True
      show ?thesis
        using a child_body_ignores [OF True, of host dest_dir True folder_name dt copied]
          child_body_ignores [OF True, of host dest_dir False folder_name dt copied]
        unfolding st by simp
    next
      case False
      from False a obtain w1 where cp: "copy2 w0 child ?out = Inr w1"
        unfolding st by (auto simp: child_body_def Let_def split: sum.splits)
      from False a cp have tm: "set_fs_times w1 ?out dt = Inr w2" and c: "copied' = copied + 1"
        unfolding st by (auto simp: child_body_def Let_def split: sum.splits)
      obtain b w3 where "update_exif_datetime host w2 ?out dt = Inr (b, w3)"
        using update_exif_datetime_returns by blast
      then show ?thesis using False cp tm c unfolding st by (auto simp: child_body_def Let_def)
    qed
  }
  {
    assume a: "child_body host dest_dir True folder_name dt child st = Inl ew"
    show "child_body host dest_dir False folder_name dt child st = Inl ew"
    proof (cases "\<not> is_file w0 child \<or> lower (path_name child) \<notin> TARGET_FILES")
      case True
      show ?thesis
        using a child_body_ignores [OF True, of host dest_dir True folder_name dt copied]
          child_body_ignores [OF True, of host dest_dir False folder_name dt copied]
        unfolding st by simp
    next
      case False
      show ?thesis
      proof (cases "copy2 w0 child ?out")
        case (Inl e)
        then show ?thesis using False a unfolding st by (auto simp: child_body_def Let_def)
      next
        case (Inr w1)
        show ?thesis
        proof (cases "set_fs_times w1 ?out dt")
          case (Inl e)
          then show ?thesis using False a Inr unfolding st by (auto simp: child_body_def Let_def)
        next
          case tm: (Inr w2')
          obtain b w3 where "update_exif_datetime host w2' ?out dt = Inr (b, w3)"
            using update_exif_datetime_returns by blast
          then show ?thesis using False a Inr tm unfolding st by (auto simp: child_body_def Let_def)
        qed
      qed
    qed
  }
qed

text \<open>
  An instance of C5: a piexif whose \<open>load\<close> raises, a file that is copied, and a file
  whose copy fails with and without the option.
\<close>

theorem update_exif_datetime_never_raises_witness:
  "update_exif_datetime h_broken w_export [''src'', ''2022-11-07-15-09-47'', ''MERGED.JPG''] dt_example
     = Inr (False, w_export)
   \<and> child_body h_broken [''out''] False ''2022-11-07-15-09-47'' dt_example
        [''src'', ''2022-11-07-15-09-47'', ''MERGED.JPG''] (w_export, 0)
     = Inr (put w_export [''out'', ''2022-11-07-15-09-47-MERGED.JPG'']
              (File True ''mm'' 1667833787 1667833787), 1)
   \<and> (\<exists>w3. child_body h_broken [''out''] True ''2022-11-07-15-09-47'' dt_example
               [''src'', ''2022-11-07-15-09-47'', ''MERGED.JPG''] (w_export, 0) = Inr (w3, 1))
   \<and> child_body h_broken [''out''] True ''2022-11-07-15-09-47'' dt_example
        [''locked'', ''video.mp4''] (w_export, 0) = Inl (Exc OSError, w_export)
   \<and> child_body h_broken [''out''] False ''2022-11-07-15-09-47'' dt_example
        [''locked'', ''video.mp4''] (w_export, 0) = Inl (Exc OSError, w_export)"
proof -
  let ?m = "[''src'', ''2022-11-07-15-09-47'', ''MERGED.JPG'']"
  let ?v = "[''locked'', ''video.mp4'']"
  let ?w2 = "put w_export [''out'', ''2022-11-07-15-09-47-MERGED.JPG'']
              (File True ''mm'' 1667833787 1667833787)"
  have u: "update_exif_datetime h_broken w_export ?m dt_example = Inr (False, w_export)"
    by code_simp
  have off: "child_body h_broken [''out''] False ''2022-11-07-15-09-47'' dt_example ?m (w_export, 0)
      = Inr (?w2, 1)"
    by code_simp
  have ab: "child_body h_broken [''out''] True ''2022-11-07-15-09-47'' dt_example ?v (w_export, 0)
      = Inl (Exc OSError, w_export)"
    by code_simp
  have "\<exists>w3. child_body h_broken [''out''] True ''2022-11-07-15-09-47'' dt_example ?m (w_export, 0)
      = Inr (w3, 1)"
    using update_exif_datetime_never_raises
      [of h_broken w p dt_example "[''out'']" "''2022-11-07-15-09-47''" ?m "(w_export, 0)" ?w2 1 ew]
      off by blast
  moreover have "child_body h_broken [''out''] False ''2022-11-07-15-09-47'' dt_example ?v (w_export, 0)
      = Inl (Exc OSError, w_export)"
    using update_exif_datetime_never_raises
      [of h_broken w p dt_example "[''out'']" "''2022-11-07-15-09-47''" ?v "(w_export, 0)" w2 c
        "(Exc OSError, w_export)"]
      ab by blast
  ultimately show ?thesis using u off ab by blast
qed

text \<open>
  C6. The source directory is validated only after the destination directory has been
  created. When the missing source is the destination or one of its ancestors, creating
  the destination creates the source: the check passes, the run goes on, reports its
  counts and exits with status 0, where C6 requires a non-zero status, an error message
  and no report. Here the source \<open>/export\<close> does not exist and the destination is
  \<open>/export/out\<close>.
\<close>

theorem missing_source_inside_destination_runs:
  "\<not> path_exists w_export [''export'']
   \<and> script h_plain w_export [''export''] [''export'', ''out''] False False
     = (0, (put (put w_export [''export''] Dir) [''export'', ''out''] Dir)
             \<lparr>stdout := [''Done. Copied: 0, Skipped folders (non-matching pattern): 1'',
                         ''Output folder: /export/out'']\<rparr>)"
  by code_simp

text \<open>
  C7. The same desired path is requested \<open>n\<close> times, a file being created at the
  returned path after each request. The \<open>n\<close> returned paths are pairwise distinct,
  from any starting state. When the desired path and its candidates \<open>stem-1.ext\<close> to
  \<open>stem-(n-1).ext\<close> are free at the start, the first request returns the desired path
  itself and the requests 2 to \<open>n\<close> return \<open>stem-1.ext\<close> to \<open>stem-(n-1).ext\<close>, in
  that order.
\<close>

theorem repeated_requests_suffixed:
  "length (requests w p f n) = n \<and> distinct (requests w p f n) \<and>
   (\<not> path_exists w p
      \<and> (\<forall>i. 1 \<le> i \<and> i < n \<longrightarrow>
            \<not> path_exists w (candidate (path_parent p) (path_stem p) (path_suffix p) i))
    \<longrightarrow> requests w p f n
          = take n (p # map (candidate (path_parent p) (path_stem p) (path_suffix p)) [1..<n]))"
  using requests_length [of w p f n] requests_distinct [of w p f n]
    requests_from_free [of w p n f]
  by blast

text \<open>An instance of C7: three requests of \<open>c.jpg\<close> in a directory that has none.\<close>

theorem repeated_requests_suffixed_witness:
  "\<not> path_exists w_taken [''out'', ''c.jpg'']
   \<and> requests w_taken [''out'', ''c.jpg''] (File True [] 0 0) 3
       = [[''out'', ''c.jpg''], [''out'', ''c-1.jpg''], [''out'', ''c-2.jpg'']]
   \<and> distinct (requests w_taken [''out'', ''c.jpg''] (File True [] 0 0) 3)"
proof -
  let ?p = "[''out'', ''c.jpg'']"
  let ?c = "candidate (path_parent ?p) (path_stem ?p) (path_suffix ?p)"
  have free: "\<not> path_exists w_taken ?p" by code_simp
  have c1: "\<not> path_exists w_taken (?c 1)" by code_simp
  have c2: "\<not> path_exists w_taken (?c 2)" by code_simp
  have cands: "\<forall>i. 1 \<le> i \<and> i < 3 \<longrightarrow> \<not> path_exists w_taken (?c i)"
  proof (intro allI impI)
    fix i :: nat assume "1 \<le> i \<and> i < 3"
    then have "i = 1 \<or> i = 2" by auto
    then show "\<not> path_exists w_taken (?c i)" using c1 c2 by auto
  qed
  have val: "take 3 (?p # map ?c [1..<3])
      = [[''out'', ''c.jpg''], [''out'', ''c-1.jpg''], [''out'', ''c-2.jpg'']]"
    by code_simp
  have "requests w_taken ?p (File True [] 0 0) 3 = take 3 (?p # map ?c [1..<3])"
    using repeated_requests_suffixed [of w_taken ?p "File True [] 0 0" 3] free cands by blast
  moreover have "distinct (requests w_taken ?p (File True [] 0 0) 3)"
    using repeated_requests_suffixed [of w_taken ?p "File True [] 0 0" 3] by blast
  ultimately show ?thesis using free val by simp
qed

text \<open>
  C8. In an accepted folder, a readable regular file is copied (a new file at the
  allocated destination path, and one more in \<open>copied\<close>) if and only if its lowercased
  name is one of \<open>TARGET_FILES\<close>; a file whose lowercased name is not in the set changes
  neither the world nor \<open>copied\<close>, and the loop body of an accepted folder leaves
  \<open>skipped\<close> as it was, whatever the folder holds. (A file that cannot be read is not
  part of the claim: its copy raises and ends the run.)
\<close>

theorem copied_iff_target_name:
  assumes "lookup w child = Some (File True c a m)" and "is_dir w dest_dir"
  shows "((\<exists>w'. child_body host dest_dir write_exif folder_name dt child (w, copied) = Inr (w', copied + 1)
             \<and> is_file w' (ensure_unique_path w (joinpath dest_dir (folder_name @ ''-'' @ path_name child))))
          \<longleftrightarrow> lower (path_name child) \<in> TARGET_FILES)
       \<and> (lower (path_name child) \<notin> TARGET_FILES
            \<longrightarrow> child_body host dest_dir write_exif folder_name dt child (w, copied) = Inr (w, copied))
       \<and> (is_dir w0 entry \<and> parse_folder_datetime host w0 (path_name entry) use_utc = Inr (dt0, w1)
            \<and> entry_body host dest_dir use_utc write_exif entry (w0, copied0, skipped0)
                = Inr (w2, copied2, skipped2)
            \<longrightarrow> skipped2 = skipped0)"
proof (intro conjI)
  show "(\<exists>w'. child_body host dest_dir write_exif folder_name dt child (w, copied) = Inr (w', copied + 1)
             \<and> is_file w' (ensure_unique_path w (joinpath dest_dir (folder_name @ ''-'' @ path_name child))))
          \<longleftrightarrow> lower (path_name child) \<in> TARGET_FILES"
  proof (cases "lower (path_name child) \<in> TARGET_FILES")
    case True
    from child_body_copies [OF assms True, of host write_exif folder_name dt copied]
    show ?thesis using True by blast
  next
    case False
    then have "child_body host dest_dir write_exif folder_name dt child (w, copied) = Inr (w, copied)"
      by (intro child_body_ignores) simp
    then show ?thesis using False by simp
  qed
next
  show "lower (path_name child) \<notin> TARGET_FILES
      \<longrightarrow> child_body host dest_dir write_exif folder_name dt child (w, copied) = Inr (w, copied)"
    by (simp add: child_body_ignores)
next
  show "is_dir w0 entry \<and> parse_folder_datetime host w0 (path_name entry) use_utc = Inr (dt0, w1)
            \<and> entry_body host dest_dir use_utc write_exif entry (w0, copied0, skipped0)
                = Inr (w2, copied2, skipped2)
            \<longrightarrow> skipped2 = skipped0"
    using entry_body_accepted_tz [of w0 entry host use_utc dt0 w1 dest_dir write_exif copied0 skipped0
        w2 copied2 skipped2]
    by blast
qed

text \<open>
  An instance of C8: \<open>MERGED.JPG\<close> lowercases to \<open>merged.jpg\<close> and is copied;
  \<open>thumbnail.png\<close> is neither copied nor counted; the folder that holds both and
  \<open>primary.jpg\<close> counts two copies and no skipped folder.
\<close>

theorem copied_iff_target_name_witness:
  "lookup w_export [''src'', ''2022-11-07-15-09-47'', ''MERGED.JPG''] = Some (File True ''mm'' 5 6)
   \<and> is_dir w_export [''out'']
   \<and> lower ''MERGED.JPG'' = ''merged.jpg'' \<and> ''merged.jpg'' \<in> TARGET_FILES
   \<and> (\<exists>w'. child_body h_plain [''out''] False ''2022-11-07-15-09-47'' dt_example
                [''src'', ''2022-11-07-15-09-47'', ''MERGED.JPG''] (w_export, 0) = Inr (w', 1))
   \<and> lookup w_export [''src'', ''2022-11-07-15-09-47'', ''thumbnail.png''] = Some (File True ''t'' 5 6)
   \<and> lower ''thumbnail.png'' \<notin> TARGET_FILES
   \<and> child_body h_plain [''out''] False ''2022-11-07-15-09-47'' dt_example
        [''src'', ''2022-11-07-15-09-47'', ''thumbnail.png''] (w_export, 0) = Inr (w_export, 0)
   \<and> is_dir w_export [''src'', ''2022-11-07-15-09-47'']
   \<and> parse_folder_datetime h_plain w_export ''2022-11-07-15-09-47'' True = Inr (dt_example, w_export)
   \<and> entry_body h_plain [''out''] True False [''src'', ''2022-11-07-15-09-47''] (w_export, 0, 0)
       = Inr (put (put w_export [''out'', ''2022-11-07-15-09-47-primary.jpg'']
                     (File True ''abc'' 1667833787 1667833787))
                [''out'', ''2022-11-07-15-09-47-MERGED.JPG''] (File True ''mm'' 1667833787 1667833787),
              2, 0)"
proof -
  let ?m = "[''src'', ''2022-11-07-15-09-47'', ''MERGED.JPG'']"
  let ?t = "[''src'', ''2022-11-07-15-09-47'', ''thumbnail.png'']"
  let ?e = "[''src'', ''2022-11-07-15-09-47'']"
  let ?w2 = "put (put w_export [''out'', ''2022-11-07-15-09-47-primary.jpg'']
                     (File True ''abc'' 1667833787 1667833787))
                [''out'', ''2022-11-07-15-09-47-MERGED.JPG''] (File True ''mm'' 1667833787 1667833787)"
  have lm: "lookup w_export ?m = Some (File True ''mm'' 5 6)" by code_simp
  have lt: "lookup w_export ?t = Some (File True ''t'' 5 6)" by code_simp
  have d: "is_dir w_export [''out'']" by code_simp
  have low: "lower ''MERGED.JPG'' = ''merged.jpg''" by code_simp
  have mem: "''merged.jpg'' \<in> TARGET_FILES" by (simp add: TARGET_FILES_def)
  have tm: "lower (path_name ?m) \<in> TARGET_FILES" by code_simp
  have tn: "lower (path_name ?t) \<notin> TARGET_FILES" by code_simp
  have tn': "lower ''thumbnail.png'' \<notin> TARGET_FILES" by code_simp
  have de: "is_dir w_export ?e" by code_simp
  have pe: "parse_folder_datetime h_plain w_export ''2022-11-07-15-09-47'' True = Inr (dt_example, w_export)"
    by code_simp
  have ee: "entry_body h_plain [''out''] True False ?e (w_export, 0, 0) = Inr (?w2, 2, 0)"
    by code_simp
  have "\<exists>w'. child_body h_plain [''out''] False ''2022-11-07-15-09-47'' dt_example ?m (w_export, 0)
      = Inr (w', 0 + 1)"
    using copied_iff_target_name [OF lm d, of h_plain False "''2022-11-07-15-09-47''" dt_example 0] tm
    by blast
  moreover have "child_body h_plain [''out''] False ''2022-11-07-15-09-47'' dt_example ?t (w_export, 0)
      = Inr (w_export, 0)"
    using copied_iff_target_name [OF lt d, of h_plain False "''2022-11-07-15-09-47''" dt_example 0] tn
    by blast
  ultimately show ?thesis using lm lt d low mem tn' de pe ee by simp
qed

text \<open>
  C9. \<open>main\<close> creates the destination directory, with its missing ancestors, before it
  looks at the source directory: whenever \<open>main\<close> ends with the \<open>SystemExit\<close> of line 109,
  the world it leaves is the one that \<open>mkdir\<close> produced, in which the destination and
  all its ancestors are directories; and whenever the source is not a directory once
  the destination has been created, \<open>main\<close> ends that way.
\<close>

theorem destination_created_before_source_check:
  "(main host w source_dir dest_dir use_utc write_exif = Inl (SystemExit msg, w')
      \<longrightarrow> mkdir_parents w dest_dir = Inr w' \<and> \<not> is_dir w' source_dir \<and> is_dir w' dest_dir
          \<and> (\<forall>q\<in>set (ancestors_and_self dest_dir). is_dir w' q))
   \<and> (mkdir_parents w dest_dir = Inr w1 \<and> \<not> is_dir w1 source_dir
      \<longrightarrow> main host w source_dir dest_dir use_utc write_exif
            = Inl (SystemExit (''Source directory does not exist or is not a directory: ''
                                @ path_str source_dir), w1)
          \<and> is_dir w1 dest_dir)"
proof (rule conjI; rule impI)
  assume a: "main host w source_dir dest_dir use_utc write_exif = Inl (SystemExit msg, w')"
  have ne: "for_each (entry_body host dest_dir use_utc write_exif) es st \<noteq> Inl (SystemExit msg, w')"
    for es st
    by (rule for_each_no_exit) (rule entry_body_no_exit)
  from a ne have mk: "mkdir_parents w dest_dir = Inr w'" and ns: "\<not> is_dir w' source_dir"
    by (auto simp: main_def split: sum.splits if_splits prod.splits)
  show "mkdir_parents w dest_dir = Inr w' \<and> \<not> is_dir w' source_dir \<and> is_dir w' dest_dir
          \<and> (\<forall>q\<in>set (ancestors_and_self dest_dir). is_dir w' q)"
    using mk ns mkdir_parents_dirs [OF mk] by simp
next
  assume b: "mkdir_parents w dest_dir = Inr w1 \<and> \<not> is_dir w1 source_dir"
  then show "main host w source_dir dest_dir use_utc write_exif
            = Inl (SystemExit (''Source directory does not exist or is not a directory: ''
                                @ path_str source_dir), w1)
          \<and> is_dir w1 dest_dir"
    using mkdir_parents_dirs [of w dest_dir w1] by (simp add: main_def)
qed

text \<open>
  An instance of C9: the source \<open>/missing\<close> does not exist; the run ends with the error
  message and leaves \<open>/new/deep/out\<close> and its two ancestors created.
\<close>

theorem destination_created_before_source_check_witness:
  "mkdir_parents w_export [''new'', ''deep'', ''out'']
     = Inr (put (put (put w_export [''new''] Dir) [''new'', ''deep''] Dir) [''new'', ''deep'', ''out''] Dir)
   \<and> \<not> path_exists w_export [''new'']
   \<and> \<not> is_dir (put (put (put w_export [''new''] Dir) [''new'', ''deep''] Dir) [''new'', ''deep'', ''out''] Dir)
         [''missing'']
   \<and> main h_plain w_export [''missing''] [''new'', ''deep'', ''out''] False False
     = Inl (SystemExit ''Source directory does not exist or is not a directory: /missing'',
            put (put (put w_export [''new''] Dir) [''new'', ''deep''] Dir) [''new'', ''deep'', ''out''] Dir)
   \<and> is_dir (put (put (put w_export [''new''] Dir) [''new'', ''deep''] Dir) [''new'', ''deep'', ''out''] Dir)
        [''new'', ''deep'', ''out'']"
proof -
  let ?w1 = "put (put (put w_export [''new''] Dir) [''new'', ''deep''] Dir) [''new'', ''deep'', ''out''] Dir"
  have mk: "mkdir_parents w_export [''new'', ''deep'', ''out''] = Inr ?w1" by code_simp
  have nd: "\<not> is_dir ?w1 [''missing'']" by code_simp
  have nx: "\<not> path_exists w_export [''new'']" by code_simp
  have msg: "''Source directory does not exist or is not a directory: '' @ path_str [''missing'']
      = ''Source directory does not exist or is not a directory: /missing''" by code_simp
  have "main h_plain w_export [''missing''] [''new'', ''deep'', ''out''] False False
      = Inl (SystemExit (''Source directory does not exist or is not a directory: ''
                          @ path_str [''missing'']), ?w1)
      \<and> is_dir ?w1 [''new'', ''deep'', ''out'']"
    using destination_created_before_source_check
      [of h_plain w_export "[''missing'']" "[''new'', ''deep'', ''out'']" False False msg w' ?w1]
      mk nd by blast
  then show ?thesis using mk nd nx unfolding msg by blast
qed

text \<open>
  C10. The destination name is built from the name of the source file as it is
  spelled, not from its lowercased form: a readable file whose lowercased name is a
  target is copied to \<open>dest_dir / (folder_name-name)\<close> when that path is free, and
  otherwise to a candidate \<open>stem-i suffix\<close> of that same path; no other path changes.
\<close>

theorem destination_name_keeps_case:
  assumes "lookup w child = Some (File True c a m)" and "is_dir w dest_dir"
    and "lower (path_name child) \<in> TARGET_FILES"
  shows "(let desired = joinpath dest_dir (folder_name @ ''-'' @ path_name child);
              out_path = ensure_unique_path w desired
          in (\<exists>w'. child_body host dest_dir write_exif folder_name dt child (w, copied) = Inr (w', copied + 1)
                \<and> is_file w' out_path \<and> (\<forall>q. q \<noteq> out_path \<longrightarrow> lookup w' q = lookup w q))
             \<and> (out_path = desired
                  \<or> (\<exists>i\<ge>1. out_path = candidate dest_dir (path_stem desired) (path_suffix desired) i))
             \<and> (\<not> path_exists w desired \<longrightarrow> out_path = desired))"
proof -
  let ?desired = "joinpath dest_dir (folder_name @ ''-'' @ path_name child)"
  from child_body_copies [OF assms, of host write_exif folder_name dt copied]
  have 1: "\<exists>w'. child_body host dest_dir write_exif folder_name dt child (w, copied) = Inr (w', copied + 1)
      \<and> is_file w' (ensure_unique_path w ?desired)
      \<and> (\<forall>q. q \<noteq> ensure_unique_path w ?desired \<longrightarrow> lookup w' q = lookup w q)"
    by blast
  have 2: "ensure_unique_path w ?desired = ?desired
      \<or> (\<exists>i\<ge>1. ensure_unique_path w ?desired
            = candidate dest_dir (path_stem ?desired) (path_suffix ?desired) i)"
    using ensure_unique_path_cases [of w ?desired] by (simp add: path_parent_joinpath)
  have 3: "\<not> path_exists w ?desired \<longrightarrow> ensure_unique_path w ?desired = ?desired"
    by (simp add: ensure_unique_path_def)
  from 1 2 3 show ?thesis unfolding Let_def by blast
qed

text \<open>
  An instance of C10: \<open>MERGED.JPG\<close> in folder \<open>2022-11-07-15-09-47\<close> is copied to
  \<open>2022-11-07-15-09-47-MERGED.JPG\<close>, and \<open>2022-11-07-15-09-47-merged.jpg\<close> does not
  exist afterwards.
\<close>

theorem destination_name_keeps_case_witness:
  "lookup w_export [''src'', ''2022-11-07-15-09-47'', ''MERGED.JPG''] = Some (File True ''mm'' 5 6)
   \<and> is_dir w_export [''out'']
   \<and> lower ''MERGED.JPG'' \<in> TARGET_FILES
   \<and> \<not> path_exists w_export [''out'', ''2022-11-07-15-09-47-MERGED.JPG'']
   \<and> (\<exists>w'. child_body h_plain [''out''] False ''2022-11-07-15-09-47'' dt_example
               [''src'', ''2022-11-07-15-09-47'', ''MERGED.JPG''] (w_export, 0) = Inr (w', 1)
          \<and> is_file w' [''out'', ''2022-11-07-15-09-47-MERGED.JPG'']
          \<and> \<not> path_exists w' [''out'', ''2022-11-07-15-09-47-merged.jpg''])"
proof -
  let ?m = "[''src'', ''2022-11-07-15-09-47'', ''MERGED.JPG'']"
  let ?up = "[''out'', ''2022-11-07-15-09-47-MERGED.JPG'']"
  let ?lo = "[''out'', ''2022-11-07-15-09-47-merged.jpg'']"
  have lm: "lookup w_export ?m = Some (File True ''mm'' 5 6)" by code_simp
  have d: "is_dir w_export [''out'']" by code_simp
  have tm: "lower (path_name ?m) \<in> TARGET_FILES" by code_simp
  have tm': "lower ''MERGED.JPG'' \<in> TARGET_FILES" by code_simp
  have des: "joinpath [''out''] (''2022-11-07-15-09-47'' @ ''-'' @ path_name ?m) = ?up" by code_simp
  have free: "\<not> path_exists w_export ?up" by code_simp
  have nolo: "lookup w_export ?lo = None" by code_simp
  have ne: "?lo \<noteq> ?up" by simp
  from destination_name_keeps_case [OF lm d tm, of "''2022-11-07-15-09-47''" h_plain False dt_example 0]
  obtain w' where w': "child_body h_plain [''out''] False ''2022-11-07-15-09-47'' dt_example ?m (w_export, 0)
        = Inr (w', 0 + 1)"
      "is_file w' (ensure_unique_path w_export ?up)"
      "\<forall>q. q \<noteq> ensure_unique_path w_export ?up \<longrightarrow> lookup w' q = lookup w_export q"
    and out: "ensure_unique_path w_export ?up = ?up"
    unfolding Let_def des using free by blast
  have "lookup w' ?lo = None" using w'(3) out ne nolo by simp
  then have "\<not> path_exists w' ?lo" by (simp add: path_exists_def)
  then have "\<exists>w'. child_body h_plain [''out''] False ''2022-11-07-15-09-47'' dt_example ?m (w_export, 0)
        = Inr (w', 1) \<and> is_file w' ?up \<and> \<not> path_exists w' ?lo"
    using w'(1,2) out by (intro exI [of _ w']) simp
  then show ?thesis using lm d tm' free by blast
qed

end
